theory Spec2Isabelle
  imports Complex_Main
begin

section \<open>Numbers\<close>

text \<open>
  The program is JavaScript (\<^verbatim>\<open>responsiveScaling.js\<close>); its numbers are IEEE doubles.
  Finite values are modelled by exact reals (no rounding, no overflow). A division whose
  divisor may be zero does not raise in JavaScript: it yields \<^verbatim>\<open>Infinity\<close>,
  \<^verbatim>\<open>-Infinity\<close> or \<^verbatim>\<open>NaN\<close>. Those three values are kept apart from
  the reals, and every comparison with \<^verbatim>\<open>NaN\<close> is false, as in the language. The real
  0 stands for the positive zero; the negative zero of the doubles is not a value here.
\<close>

datatype jsnum = Finite real | PosInfinity | NegInfinity | NaN

definition js_div :: "real \<Rightarrow> real \<Rightarrow> jsnum" where
  "js_div a b =
     (if b = 0 then (if a = 0 then NaN else if 0 < a then PosInfinity else NegInfinity)
      else Finite (a / b))"

fun js_gt :: "jsnum \<Rightarrow> real \<Rightarrow> bool" where
  "js_gt (Finite x) c = (c < x)"
| "js_gt PosInfinity c = True"
| "js_gt NegInfinity c = False"
| "js_gt NaN c = False"

fun js_ge :: "jsnum \<Rightarrow> real \<Rightarrow> bool" where
  "js_ge (Finite x) c = (c \<le> x)"
| "js_ge PosInfinity c = True"
| "js_ge NegInfinity c = False"
| "js_ge NaN c = False"

fun js_mul :: "jsnum \<Rightarrow> real \<Rightarrow> jsnum" where
  "js_mul (Finite x) c = Finite (x * c)"
| "js_mul PosInfinity c = (if c = 0 then NaN else if 0 < c then PosInfinity else NegInfinity)"
| "js_mul NegInfinity c = (if c = 0 then NaN else if 0 < c then NegInfinity else PosInfinity)"
| "js_mul NaN c = NaN"

text \<open>Truthiness of a value that is \<^verbatim>\<open>null\<close> or a string: only a non-empty string is truthy.\<close>

fun truthy :: "string option \<Rightarrow> bool" where
  "truthy None = False"
| "truthy (Some s) = (s \<noteq> [])"

section \<open>The dimension solver\<close>

text \<open>\<^verbatim>\<open>BASE_DIMENSIONS = { width: 1920, height: 1080, aspectRatio: 16/9 }\<close>\<close>

definition BASE_width :: real where "BASE_width = 1920"
definition BASE_height :: real where "BASE_height = 1080"
definition BASE_aspectRatio :: real where "BASE_aspectRatio = 16 / 9"

datatype orientation = Landscape | Portrait

record dimensions =
  width :: real
  height :: real
  scale :: real
  orientation :: orientation
  offsetX :: real
  offsetY :: real

text \<open>
  \<^verbatim>\<open>getOptimalDimensions(viewportWidth, viewportHeight, forceOrientation = null)\<close>.
  The third argument is \<^verbatim>\<open>null\<close> or a string; the code compares it with
  \<^verbatim>\<open>'landscape'\<close> and otherwise only tests its truthiness, so every other non-empty
  string selects the portrait branch. The function has no check of its arguments and no
  \<^verbatim>\<open>throw\<close>: it returns the object on every path.
\<close>

definition getOptimalDimensions :: "real \<Rightarrow> real \<Rightarrow> string option \<Rightarrow> dimensions" where
  "getOptimalDimensions viewportWidth viewportHeight forceOrientation =
     (let currentAspectRatio = js_div viewportWidth viewportHeight;
          isLandscape = js_gt currentAspectRatio 1;
          (targetWidth, targetHeight, orient) =
            (if forceOrientation = Some ''landscape'' \<or> (\<not> truthy forceOrientation \<and> isLandscape)
             then
               (if js_ge currentAspectRatio BASE_aspectRatio
                then (viewportHeight * BASE_aspectRatio, viewportHeight, Landscape)
                else (viewportWidth, viewportWidth / BASE_aspectRatio, Landscape))
             else
               (let portraitAspectRatio = BASE_height / BASE_width in
                if js_ge currentAspectRatio portraitAspectRatio
                then (viewportHeight * portraitAspectRatio, viewportHeight, Portrait)
                else (viewportWidth, viewportWidth / portraitAspectRatio, Portrait)))
      in \<lparr> width = targetWidth,
           height = targetHeight,
           scale = min (targetWidth / BASE_width) (targetHeight / BASE_height),
           orientation = orient,
           offsetX = (viewportWidth - targetWidth) / 2,
           offsetY = (viewportHeight - targetHeight) / 2 \<rparr>)"

text \<open>
  The reference rectangle the specification calls orientation-appropriate: the reference
  design as it is for landscape, rotated by 90 degrees for portrait. This definition follows
  the specification's words, to be compared with the scale the code computes.
\<close>

definition spec_target_rect :: "orientation \<Rightarrow> real \<times> real" where
  "spec_target_rect orient =
     (case orient of Landscape \<Rightarrow> (BASE_width, BASE_height)
                   | Portrait \<Rightarrow> (BASE_height, BASE_width))"

definition spec_scale :: "dimensions \<Rightarrow> real" where
  "spec_scale d =
     min (width d / fst (spec_target_rect (orientation d)))
         (height d / snd (spec_target_rect (orientation d)))"

section \<open>The dimension solver with rounded arithmetic\<close>

text \<open>
  The definitions above compute in exact reals. The program computes in binary64: every
  quotient, product and difference is rounded to the nearest double before it is used.
  Below, the solver is written once more with a rounding \<open>rnd\<close> applied to the exact result
  of each operation of the source, so that statements about it hold for the doubles of the
  program and, with the identity for \<open>rnd\<close>, for exact arithmetic. A real stands for the
  finite double of that value; results beyond the largest double are not represented, and
  the two zeros of the doubles are the one real 0.
\<close>

definition js_div_fl :: "(real \<Rightarrow> real) \<Rightarrow> real \<Rightarrow> real \<Rightarrow> jsnum" where
  "js_div_fl rnd a b =
     (if b = 0 then (if a = 0 then NaN else if 0 < a then PosInfinity else NegInfinity)
      else Finite (rnd (a / b)))"

text \<open>
  The constant \<^verbatim>\<open>BASE_DIMENSIONS.aspectRatio\<close> is the double that \<^verbatim>\<open>16/9\<close> evaluates to,
  and \<^verbatim>\<open>portraitAspectRatio\<close> the double of \<^verbatim>\<open>1080 / 1920\<close>.
\<close>

definition target_ratio_fl :: "(real \<Rightarrow> real) \<Rightarrow> orientation \<Rightarrow> real" where
  "target_ratio_fl rnd orient =
     (case orient of Landscape \<Rightarrow> rnd (16 / 9) | Portrait \<Rightarrow> rnd (BASE_height / BASE_width))"

definition getOptimalDimensions_fl ::
  "(real \<Rightarrow> real) \<Rightarrow> real \<Rightarrow> real \<Rightarrow> string option \<Rightarrow> dimensions" where
  "getOptimalDimensions_fl rnd viewportWidth viewportHeight forceOrientation =
     (let currentAspectRatio = js_div_fl rnd viewportWidth viewportHeight;
          isLandscape = js_gt currentAspectRatio 1;
          (targetWidth, targetHeight, orient) =
            (if forceOrientation = Some ''landscape'' \<or> (\<not> truthy forceOrientation \<and> isLandscape)
             then
               (let aspectRatio = target_ratio_fl rnd Landscape in
                if js_ge currentAspectRatio aspectRatio
                then (rnd (viewportHeight * aspectRatio), viewportHeight, Landscape)
                else (viewportWidth, rnd (viewportWidth / aspectRatio), Landscape))
             else
               (let portraitAspectRatio = target_ratio_fl rnd Portrait in
                if js_ge currentAspectRatio portraitAspectRatio
                then (rnd (viewportHeight * portraitAspectRatio), viewportHeight, Portrait)
                else (viewportWidth, rnd (viewportWidth / portraitAspectRatio), Portrait)))
      in \<lparr> width = targetWidth,
           height = targetHeight,
           scale = min (rnd (targetWidth / BASE_width)) (rnd (targetHeight / BASE_height)),
           orientation = orient,
           offsetX = rnd (rnd (viewportWidth - targetWidth) / 2),
           offsetY = rnd (rnd (viewportHeight - targetHeight) / 2) \<rparr>)"

text \<open>
  The scale as the specification words it, with the quotients rounded as the program rounds
  them.
\<close>

definition spec_scale_fl :: "(real \<Rightarrow> real) \<Rightarrow> dimensions \<Rightarrow> real" where
  "spec_scale_fl rnd d =
     min (rnd (width d / fst (spec_target_rect (orientation d))))
         (rnd (height d / snd (spec_target_rect (orientation d))))"

text \<open>
  What the statements below use of a rounding: it keeps the order, it leaves a value it has
  produced as it is, and it leaves 0 and 1/2 as they are. The viewport sizes are doubles, so
  the rounding leaves them as they are too.
\<close>

definition rounding :: "(real \<Rightarrow> real) \<Rightarrow> bool" where
  "rounding rnd =
     (mono rnd \<and> (\<forall>x. rnd (rnd x) = rnd x) \<and> rnd 0 = 0 \<and> rnd (1 / 2) = 1 / 2)"

subsection \<open>Rounding to the nearest double\<close>

text \<open>
  The rounding of binary64, to the nearest double and to the even one at a tie. The
  exponent of a positive value is found by halving or doubling it into the interval from 1
  to 2; it does not go below -1022, where the subnormal doubles begin. The last place of a
  double with exponent \<open>e\<close> is \<open>2\<close> to the \<open>e - 52\<close>, and the value is rounded to a multiple
  of it.
\<close>

definition round_even :: "real \<Rightarrow> int" where
  "round_even x =
     (let n = \<lfloor>x\<rfloor>; r = x - of_int n
      in if r < 1 / 2 then n else if 1 / 2 < r then n + 1 else if even n then n else n + 1)"

fun halvings :: "nat \<Rightarrow> real \<Rightarrow> nat" where
  "halvings 0 x = 0"
| "halvings (Suc k) x = (if 2 \<le> x then Suc (halvings k (x / 2)) else 0)"

fun doublings :: "nat \<Rightarrow> real \<Rightarrow> nat" where
  "doublings 0 x = 0"
| "doublings (Suc k) x = (if x < 1 then Suc (doublings k (x * 2)) else 0)"

definition exponent64 :: "real \<Rightarrow> int" where
  "exponent64 x = (if 1 \<le> x then int (halvings 1024 x) else - int (doublings 1022 x))"

definition pow2 :: "int \<Rightarrow> real" where
  "pow2 e = (if 0 \<le> e then 2 ^ nat e else 1 / 2 ^ nat (- e))"

definition round64 :: "real \<Rightarrow> real" where
  "round64 x =
     (if x = 0 then 0
      else (let u = pow2 (exponent64 \<bar>x\<bar> - 52)
            in sgn x * (of_int (round_even (\<bar>x\<bar> / u)) * u)))"

section \<open>The text fitter\<close>

text \<open>
  The fitter works on a DOM element. The model keeps what the function reads (the computed
  font size and line height, the client box, the text) and what it writes (the inline style
  and the two \<^verbatim>\<open>dataset\<close> entries). \<^verbatim>\<open>parseFloat\<close> of the computed line height
  is \<^verbatim>\<open>NaN\<close> for the keyword \<^verbatim>\<open>normal\<close>; that is \<open>None\<close> here.
\<close>

record element =
  computedFontSize :: real
  computedLineHeight :: "real option"
  clientWidth :: real
  clientHeight :: real
  textContent :: string
  whiteSpace :: string
  wordBreak :: string
  overflowWrap :: string
  styleFontSize :: "real option"
  styleLineHeight :: "jsnum option"
  datasetOriginalFontSize :: "real option"
  datasetOriginalLineHeight :: "real option"

text \<open>
  The rendered content box is measured by the host. Nothing in the code fixes what the
  host answers, so the host is an arbitrary sequence of layouts: the \<open>n\<close>-th expression
  of a run that reads \<^verbatim>\<open>scrollWidth\<close> (and \<^verbatim>\<open>scrollHeight\<close>) sees \<open>host n\<close>.
\<close>

type_synonym host = "nat \<Rightarrow> real \<times> real"

definition scrollWidth :: "real \<times> real \<Rightarrow> real" where
  "scrollWidth layout = fst layout"

definition scrollHeight :: "real \<times> real \<Rightarrow> real" where
  "scrollHeight layout = snd layout"

text \<open>
  The options object; a key that is absent (\<open>None\<close>) takes the default of the destructuring.
  The last key, \<^verbatim>\<open>maxIterations\<close>, is one a caller may pass; the function does not read it.
\<close>

record text_fit_options =
  maxReduction :: "real option"
  minFontSize :: "real option"
  preferWordWrap :: "bool option"
  respectLineHeight :: "bool option"
  step :: "real option"
  maxIterations :: "nat option"

definition dflt :: "'a \<Rightarrow> 'a option \<Rightarrow> 'a" where
  "dflt d v = (case v of None \<Rightarrow> d | Some x \<Rightarrow> x)"

definition opt_maxReduction :: "text_fit_options \<Rightarrow> real" where
  "opt_maxReduction options = dflt (7 / 10) (maxReduction options)"

definition opt_minFontSize :: "text_fit_options \<Rightarrow> real" where
  "opt_minFontSize options = dflt 12 (minFontSize options)"

definition opt_preferWordWrap :: "text_fit_options \<Rightarrow> bool" where
  "opt_preferWordWrap options = dflt True (preferWordWrap options)"

definition opt_respectLineHeight :: "text_fit_options \<Rightarrow> bool" where
  "opt_respectLineHeight options = dflt True (respectLineHeight options)"

definition opt_step :: "text_fit_options \<Rightarrow> real" where
  "opt_step options = dflt (2 / 100) (step options)"

text \<open>The strings \<^verbatim>\<open>'word-wrap'\<close>, \<^verbatim>\<open>'font-reduction'\<close> and \<^verbatim>\<open>'hybrid'\<close>.\<close>

datatype fit_method = WordWrap | FontReduction | Hybrid

text \<open>The returned object. The early return after a successful wrap has no \<^verbatim>\<open>attempts\<close> key.\<close>

record text_fit_result =
  methodName :: fit_method
  fontSize :: real
  reduction :: jsnum
  fits :: bool
  attempts :: "nat option"

definition maxAttempts :: nat where
  "maxAttempts = 50"

definition enableWrapping :: "element \<Rightarrow> element" where
  "enableWrapping el =
     el\<lparr> whiteSpace := ''normal'', wordBreak := ''break-word'', overflowWrap := ''break-word'' \<rparr>"

text \<open>
  The body of the \<^verbatim>\<open>while\<close> loop writes the new font size to the inline style and,
  when \<^verbatim>\<open>respectLineHeight\<close> is set, a line height in the original proportion.
\<close>

definition applyFontSize :: "bool \<Rightarrow> real \<Rightarrow> real \<Rightarrow> real \<Rightarrow> element \<Rightarrow> element" where
  "applyFontSize respectLH originalLineHeight originalFontSize currentFontSize el =
     (let el' = el\<lparr> styleFontSize := Some currentFontSize \<rparr>
      in if respectLH
         then (let lineHeightRatio = js_div originalLineHeight originalFontSize
               in el'\<lparr> styleLineHeight := Some (js_mul lineHeightRatio currentFontSize) \<rparr>)
         else el')"

text \<open>
  The \<^verbatim>\<open>while\<close> loop of the fitter. Its state is the element, the current font size,
  the attempt counter and the number of layouts read so far; every evaluation of the loop
  condition reads one layout, the last one (which leaves the loop) included.
\<close>

function fontReductionLoop ::
  "host \<Rightarrow> real \<Rightarrow> real \<Rightarrow> real \<Rightarrow> bool \<Rightarrow> real \<Rightarrow> real \<Rightarrow>
   element \<Rightarrow> real \<Rightarrow> nat \<Rightarrow> nat \<Rightarrow> element \<times> real \<times> nat \<times> nat" where
  "fontReductionLoop host containerWidth minAllowedSize stp respectLH originalLineHeight
       originalFontSize el currentFontSize atts reads =
     (if scrollWidth (host reads) > containerWidth \<and> currentFontSize > minAllowedSize
         \<and> atts < maxAttempts
      then fontReductionLoop host containerWidth minAllowedSize stp respectLH
             originalLineHeight originalFontSize
             (applyFontSize respectLH originalLineHeight originalFontSize
                (currentFontSize * (1 - stp)) el)
             (currentFontSize * (1 - stp)) (atts + 1) (reads + 1)
      else (el, currentFontSize, atts, reads + 1))"
  by pat_completeness auto
termination
  by (relation "measure (\<lambda>(host, cw, m, s, r, olh, ofs, el, c, atts, reads). maxAttempts - atts)")
     auto

declare fontReductionLoop.simps [simp del]

text \<open>
  \<^verbatim>\<open>intelligentTextFit(element, options = {})\<close>. The result is \<open>None\<close> for the
  \<^verbatim>\<open>return null\<close> of a missing element; otherwise the returned object, the element as
  the function leaves it, and the number of layouts it has read.
\<close>

definition intelligentTextFit ::
  "host \<Rightarrow> element option \<Rightarrow> text_fit_options \<Rightarrow> (text_fit_result \<times> element \<times> nat) option" where
  "intelligentTextFit host element options =
     (case element of
        None \<Rightarrow> None
      | Some el0 \<Rightarrow>
          (let originalFontSize = computedFontSize el0;
               originalLineHeight =
                 (case computedLineHeight el0 of
                    None \<Rightarrow> originalFontSize * (12 / 10)
                  | Some lh \<Rightarrow> if lh = 0 then originalFontSize * (12 / 10) else lh);
               el1 = (if datasetOriginalFontSize el0 = None
                      then el0\<lparr> datasetOriginalFontSize := Some originalFontSize,
                                datasetOriginalLineHeight := Some originalLineHeight \<rparr>
                      else el0);
               containerWidth = clientWidth el1;
               containerHeight = clientHeight el1;
               originalText = textContent el1;
               tryWrap = (opt_preferWordWrap options \<and> CHR '' '' \<in> set originalText);
               el2 = (if tryWrap then enableWrapping el1 else el1);
               reads0 = (if tryWrap then 1 else 0)
           in if tryWrap \<and> scrollWidth (host 0) \<le> containerWidth
                 \<and> scrollHeight (host 0) \<le> containerHeight
              then Some (\<lparr> methodName = WordWrap, fontSize = originalFontSize,
                            reduction = Finite 0, fits = True, attempts = None \<rparr>, el2, 1)
              else
                (let el3 = el2\<lparr> whiteSpace := ''nowrap'' \<rparr>;
                     minAllowedSize =
                       max (opt_minFontSize options) (originalFontSize * opt_maxReduction options);
                     (el4, currentFontSize, atts, reads1) =
                       fontReductionLoop host containerWidth minAllowedSize (opt_step options)
                         (opt_respectLineHeight options) originalLineHeight originalFontSize
                         el3 originalFontSize 0 reads0;
                     reduct = js_div (originalFontSize - currentFontSize) originalFontSize;
                     fts = (scrollWidth (host reads1) \<le> containerWidth);
                     el5 = (if \<not> fts \<and> opt_preferWordWrap options
                            then enableWrapping el4 else el4)
                 in Some (\<lparr> methodName = (if fts then FontReduction else Hybrid),
                               fontSize = currentFontSize,
                               reduction = reduct,
                               fits = (scrollWidth (host (reads1 + 1)) \<le> containerWidth
                                       \<and> scrollHeight (host (reads1 + 1)) \<le> containerHeight),
                               attempts = Some atts \<rparr>, el5, reads1 + 2))))"

text \<open>
  The floor as the specification words it, for comparison with \<open>minAllowedSize\<close> above:
  the larger of the minimum size and the original size less the maximal reduction.
\<close>

definition spec_floor :: "real \<Rightarrow> real \<Rightarrow> real \<Rightarrow> real" where
  "spec_floor minFontSizePixels originalSize maxReductionFraction =
     max minFontSizePixels (originalSize * (1 - maxReductionFraction))"

text \<open>
  Inputs for the examples: an element that the fitter has not touched yet (no inline style,
  no \<^verbatim>\<open>dataset\<close> entry, computed line height \<^verbatim>\<open>normal\<close>), the empty options object
  \<^verbatim>\<open>{}\<close>, and a host that answers with one layout for the first \<open>k\<close> reads and with
  another from then on.
\<close>

definition plain_element :: "real \<Rightarrow> real \<Rightarrow> real \<Rightarrow> string \<Rightarrow> element" where
  "plain_element fs boxWidth boxHeight txt =
     \<lparr> computedFontSize = fs, computedLineHeight = None,
       clientWidth = boxWidth, clientHeight = boxHeight, textContent = txt,
       whiteSpace = [], wordBreak = [], overflowWrap = [],
       styleFontSize = None, styleLineHeight = None,
       datasetOriginalFontSize = None, datasetOriginalLineHeight = None \<rparr>"

definition no_options :: text_fit_options where
  "no_options =
     \<lparr> maxReduction = None, minFontSize = None, preferWordWrap = None,
       respectLineHeight = None, step = None, maxIterations = None \<rparr>"

definition layouts_then :: "nat \<Rightarrow> real \<times> real \<Rightarrow> real \<times> real \<Rightarrow> host" where
  "layouts_then k first rest n = (if n < k then first else rest)"

section \<open>The scale properties\<close>

text \<open>
  The property values are CSS strings built from numbers. The model keeps their structure
  instead of their text: \<^verbatim>\<open>`${x}px`\<close> is \<open>Px x\<close>, a bare number is \<open>Num x\<close>, a keyword is
  \<open>Ident s\<close>, and \<^verbatim>\<open>`clamp(${a}px, ${b}${unit}, ${c}px)`\<close> is \<open>Clamp a b unit c\<close>.
\<close>

datatype css_value = Px real | Num real | Ident string | Clamp real real string real

text \<open>
  \<^verbatim>\<open>x.toFixed(2)\<close> writes the hundredth nearest to \<open>x\<close>, the larger one at a tie; the model
  keeps the number that the digits denote.
\<close>

definition toFixed2 :: "real \<Rightarrow> real" where
  "toFixed2 x = of_int \<lfloor>x * 100 + 1 / 2\<rfloor> / 100"

text \<open>
  \<^verbatim>\<open>pixelsToViewport(pixels, unit = 'vw', baseViewport = null)\<close>. A base that is
  \<^verbatim>\<open>null\<close> or 0 is falsy and replaced by the base height for a unit with the letter h
  and by the base width otherwise.
\<close>

definition pixelsToViewport :: "real \<Rightarrow> string \<Rightarrow> real option \<Rightarrow> css_value" where
  "pixelsToViewport pixels unit baseViewport =
     (let base = (case baseViewport of
                    None \<Rightarrow> (if CHR ''h'' \<in> set unit then BASE_height else BASE_width)
                  | Some b \<Rightarrow> (if b = 0
                               then (if CHR ''h'' \<in> set unit then BASE_height else BASE_width)
                               else b));
          vwValue = (pixels / base) * 100;
          minPx = max (pixels * (5 / 10)) 8;
          maxPx = pixels * 2
      in Clamp minPx (toFixed2 vwValue) unit maxPx)"

text \<open>\<^verbatim>\<open>TYPOGRAPHY_SCALE\<close>: for each key the triple \<^verbatim>\<open>vw\<close>, \<^verbatim>\<open>min\<close>, \<^verbatim>\<open>max\<close>, in the order of the source.\<close>

definition TYPOGRAPHY_SCALE :: "(string \<times> real \<times> real \<times> real) list" where
  "TYPOGRAPHY_SCALE =
     [(''xs'', 15 / 10, 12, 18),
      (''sm'', 2, 14, 24),
      (''md'', 3, 18, 36),
      (''lg'', 4, 24, 48),
      (''xl'', 5, 32, 64),
      (''xxl'', 6, 40, 80)]"

text \<open>\<^verbatim>\<open>responsiveFontSize(scale = 'md', multiplier = 1)\<close>; an unknown key falls back to \<^verbatim>\<open>md\<close>.\<close>

definition responsiveFontSize :: "string \<Rightarrow> real \<Rightarrow> css_value" where
  "responsiveFontSize scaleKey multiplier =
     (let (vw, minV, maxV) = (case map_of TYPOGRAPHY_SCALE scaleKey of
                                None \<Rightarrow> (3, 18, 36)
                              | Some config \<Rightarrow> config)
      in Clamp (minV * multiplier) (vw * multiplier) ''vw'' (maxV * multiplier))"

text \<open>
  The options object that \<^verbatim>\<open>applyResponsiveScaling\<close>, \<^verbatim>\<open>generateScaleProperties\<close> and
  \<^verbatim>\<open>createResponsiveObserver\<close> share; each function reads its own keys, and an absent key
  (\<open>None\<close>) takes the default of the destructuring. Times are in milliseconds.
\<close>

record scaling_options =
  viewportWidth :: "real option"
  viewportHeight :: "real option"
  forceOrientation :: "string option"
  enableSmartTextFit :: "bool option"
  textFitOptions :: "text_fit_options option"
  enableTextScaling :: "bool option"
  textScaleMultiplier :: "real option"
  enableSpacingScale :: "bool option"
  debounceMs :: "nat option"

text \<open>The decimal digits of a natural number, as the template literal writes the loop counter.\<close>

fun decimal_string :: "nat \<Rightarrow> string" where
  "decimal_string k =
     (if 10 \<le> k then decimal_string (k div 10) @ [''0123456789'' ! (k mod 10)]
      else [''0123456789'' ! k])"

declare decimal_string.simps [simp del]

definition orientation_name :: "orientation \<Rightarrow> string" where
  "orientation_name orient = (case orient of Landscape \<Rightarrow> ''landscape'' | Portrait \<Rightarrow> ''portrait'')"

text \<open>
  \<^verbatim>\<open>generateScaleProperties(dimensions, options = {})\<close>. The object is a list of keys and
  values in the order of the assignments (no key is assigned twice); \<open>map_of\<close> reads a key.
\<close>

definition generateScaleProperties ::
  "dimensions \<Rightarrow> scaling_options \<Rightarrow> (string \<times> css_value) list" where
  "generateScaleProperties dims options =
     (let properties0 =
            [(''--display-width'', Px (width dims)),
             (''--display-height'', Px (height dims)),
             (''--display-scale'', Num (scale dims)),
             (''--display-offset-x'', Px (offsetX dims)),
             (''--display-offset-y'', Px (offsetY dims)),
             (''--display-orientation'', Ident (orientation_name (orientation dims)))];
          properties1 =
            (if dflt True (enableTextScaling options)
             then properties0 @
                  map (\<lambda>scaleKey. (''--font-'' @ scaleKey,
                                    responsiveFontSize scaleKey
                                      (dflt 1 (textScaleMultiplier options))))
                      (map fst TYPOGRAPHY_SCALE)
             else properties0);
          spacingBase = 8
      in if dflt True (enableSpacingScale options)
         then properties1 @
              map (\<lambda>i. (''--spacing-'' @ decimal_string i,
                         pixelsToViewport (spacingBase * real i) ''vmin'' None))
                  [1 ..< 11]
         else properties1)"

text \<open>
  The spacing step as the specification words it: floor and ceiling are half and one and a
  half times the step's pixel value.
\<close>

definition baseSpacing :: real where
  "baseSpacing = 8"

definition spec_spacing_floor :: "nat \<Rightarrow> real" where
  "spec_spacing_floor i = baseSpacing * real i * (5 / 10)"

definition spec_spacing_ceiling :: "nat \<Rightarrow> real" where
  "spec_spacing_ceiling i = baseSpacing * real i * (15 / 10)"

definition no_scaling_options :: scaling_options where
  "no_scaling_options =
     \<lparr> viewportWidth = None, viewportHeight = None, forceOrientation = None,
       enableSmartTextFit = None, textFitOptions = None, enableTextScaling = None,
       textScaleMultiplier = None, enableSpacingScale = None, debounceMs = None \<rparr>"

section \<open>Applying the scaling and observing changes\<close>

text \<open>
  \<^verbatim>\<open>applyResponsiveScaling(container, options = {})\<close>, as far as its return value goes:
  nothing for a missing container, otherwise the dimensions, the properties and the
  transform (translation by the offsets, then the scale). The viewport is taken from the
  options where they give one and from the window otherwise. What the function writes to
  the container's style and the fitting of the text elements inside are left out.
\<close>

record scaling_result =
  res_dimensions :: dimensions
  res_properties :: "(string \<times> css_value) list"
  res_transform :: "real \<times> real \<times> real"

definition applyResponsiveScaling ::
  "bool \<Rightarrow> scaling_options \<Rightarrow> real \<times> real \<Rightarrow> scaling_result option" where
  "applyResponsiveScaling container options window =
     (if \<not> container then None
      else
        (let vw = dflt (fst window) (viewportWidth options);
             vh = dflt (snd window) (viewportHeight options);
             dims = getOptimalDimensions vw vh (forceOrientation options);
             properties = generateScaleProperties dims options
         in Some \<lparr> res_dimensions = dims, res_properties = properties,
                    res_transform = (offsetX dims, offsetY dims, scale dims) \<rparr>))"

text \<open>
  The arguments of \<^verbatim>\<open>createResponsiveObserver(container, callback, options = {})\<close>:
  whether a container and a callback are given, and the options.
\<close>

record observer =
  obs_container :: bool
  obs_callback :: bool
  obs_options :: scaling_options

text \<open>
  Everything the observer's closures can see or change: the window with its size, the
  clock and the pending timeouts (identifier and due time; the only timeout callback is the
  observer's), whether the two listeners are registered, the closure variable
  \<^verbatim>\<open>resizeTimeout\<close> (undefined before the first call of \<^verbatim>\<open>setTimeout\<close>), and the log of the
  calls of the callback, each with the time of the call and the argument passed.
\<close>

record world =
  innerWidth :: real
  innerHeight :: real
  clock :: nat
  timers :: "(nat \<times> nat) list"
  nextTimerId :: nat
  resizeListener :: bool
  orientationListener :: bool
  resizeTimeout :: "nat option"
  updates :: "(nat \<times> scaling_result option) list"

definition clearTimeout :: "nat option \<Rightarrow> world \<Rightarrow> world" where
  "clearTimeout timer w =
     (case timer of
        None \<Rightarrow> w
      | Some i \<Rightarrow> w\<lparr> timers := filter (\<lambda>entry. fst entry \<noteq> i) (timers w) \<rparr>)"

definition setTimeout :: "nat \<Rightarrow> world \<Rightarrow> nat \<times> world" where
  "setTimeout delay w =
     (nextTimerId w,
      w\<lparr> timers := timers w @ [(nextTimerId w, clock w + delay)],
         nextTimerId := nextTimerId w + 1 \<rparr>)"

text \<open>The function passed to \<^verbatim>\<open>setTimeout\<close>: apply the scaling, then call the callback if there is one.\<close>

definition timerCallback :: "observer \<Rightarrow> world \<Rightarrow> world" where
  "timerCallback obs w =
     (let result = applyResponsiveScaling (obs_container obs) (obs_options obs)
                     (innerWidth w, innerHeight w)
      in if obs_callback obs then w\<lparr> updates := updates w @ [(clock w, result)] \<rparr> else w)"

definition scheduleResize :: "observer \<Rightarrow> nat \<Rightarrow> world \<Rightarrow> world" where
  "scheduleResize obs extraDelay w =
     (let w1 = clearTimeout (resizeTimeout w) w;
          (timer, w2) = setTimeout (dflt 150 (debounceMs (obs_options obs)) + extraDelay) w1
      in w2\<lparr> resizeTimeout := Some timer \<rparr>)"

definition handleResize :: "observer \<Rightarrow> world \<Rightarrow> world" where
  "handleResize obs w = scheduleResize obs 0 w"

definition handleOrientationChange :: "observer \<Rightarrow> world \<Rightarrow> world" where
  "handleOrientationChange obs w = scheduleResize obs 100 w"

text \<open>
  \<^verbatim>\<open>createResponsiveObserver\<close> registers both listeners and calls \<^verbatim>\<open>handleResize\<close> once;
  the function it returns is \<open>cleanup\<close>.
\<close>

definition createResponsiveObserver :: "observer \<Rightarrow> world \<Rightarrow> world" where
  "createResponsiveObserver obs w =
     handleResize obs (w\<lparr> resizeListener := True, orientationListener := True \<rparr>)"

definition cleanup :: "world \<Rightarrow> world" where
  "cleanup w =
     (clearTimeout (resizeTimeout w) w)\<lparr> resizeListener := False, orientationListener := False \<rparr>"

text \<open>
  The surroundings of the observer. The window is resized, or the device is turned, to a
  new size, and the event is dispatched to the listener if it is registered; or the owner
  of the observer calls the function it got back. Each event comes with the time at which
  it happens. Before an event at time \<open>t\<close> is handled, every timeout due at \<open>t\<close> or before
  runs, in the order of the due times, with the clock at its due time; a timeout never runs
  before it is due.
\<close>

datatype event = Resize real real | OrientationChange real real | Release

definition fire :: "observer \<Rightarrow> world \<Rightarrow> nat \<times> nat \<Rightarrow> world" where
  "fire obs w entry = timerCallback obs (w\<lparr> clock := max (clock w) (snd entry) \<rparr>)"

definition advance :: "observer \<Rightarrow> nat \<Rightarrow> world \<Rightarrow> world" where
  "advance obs t w =
     (let due = sort_key snd (filter (\<lambda>entry. snd entry \<le> t) (timers w));
          w1 = w\<lparr> timers := filter (\<lambda>entry. t < snd entry) (timers w) \<rparr>;
          w2 = foldl (fire obs) w1 due
      in w2\<lparr> clock := max (clock w2) t \<rparr>)"

fun dispatch :: "observer \<Rightarrow> event \<Rightarrow> world \<Rightarrow> world" where
  "dispatch obs (Resize x y) w =
     (let w1 = w\<lparr> innerWidth := x, innerHeight := y \<rparr>
      in if resizeListener w1 then handleResize obs w1 else w1)"
| "dispatch obs (OrientationChange x y) w =
     (let w1 = w\<lparr> innerWidth := x, innerHeight := y \<rparr>
      in if orientationListener w1 then handleOrientationChange obs w1 else w1)"
| "dispatch obs Release w = cleanup w"

fun run :: "observer \<Rightarrow> (nat \<times> event) list \<Rightarrow> world \<Rightarrow> world" where
  "run obs [] w = w"
| "run obs ((t, e) # es) w = run obs es (dispatch obs e (advance obs t w))"

text \<open>A window of the given size at the given time, with no timeout pending and no listener.\<close>

definition initial_world :: "real \<Rightarrow> real \<Rightarrow> nat \<Rightarrow> world" where
  "initial_world x y t =
     \<lparr> innerWidth = x, innerHeight = y, clock = t, timers = [], nextTimerId = 1,
       resizeListener = False, orientationListener = False, resizeTimeout = None,
       updates = [] \<rparr>"

text \<open>
  A burst: from time \<open>t0\<close> on, resize and orientation signals only, in the order of time,
  each one less than the debounce time \<open>d\<close> after the one before it (the first one after
  \<open>t0\<close>).
\<close>

fun burst :: "nat \<Rightarrow> nat \<Rightarrow> (nat \<times> event) list \<Rightarrow> bool" where
  "burst d t0 [] = True"
| "burst d t0 ((t, e) # es) = (e \<noteq> Release \<and> t0 \<le> t \<and> t < t0 + d \<and> burst d t es)"

text \<open>
  What a burst leaves behind: the size of the window after its last signal, and the time
  at which the timeout set by its last signal is due.
\<close>

fun final_viewport :: "real \<times> real \<Rightarrow> (nat \<times> event) list \<Rightarrow> real \<times> real" where
  "final_viewport v [] = v"
| "final_viewport v ((t, Resize x y) # es) = final_viewport (x, y) es"
| "final_viewport v ((t, OrientationChange x y) # es) = final_viewport (x, y) es"
| "final_viewport v ((t, Release) # es) = final_viewport v es"

fun final_due :: "nat \<Rightarrow> nat \<Rightarrow> (nat \<times> event) list \<Rightarrow> nat" where
  "final_due d due [] = due"
| "final_due d due ((t, Resize x y) # es) = final_due d (t + d) es"
| "final_due d due ((t, OrientationChange x y) # es) = final_due d (t + d + 100) es"
| "final_due d due ((t, Release) # es) = final_due d due es"

text \<open>
  The states of the debounce: a timeout of the observer is pending and due at a given time
  while both listeners are registered; the observer is released when no listener is
  registered and no timeout is pending. In every state the observer reaches, a pending
  timeout is the one \<^verbatim>\<open>resizeTimeout\<close> names.
\<close>

definition debounce_of :: "observer \<Rightarrow> nat" where
  "debounce_of obs = dflt 150 (debounceMs (obs_options obs))"

definition pending_at :: "world \<Rightarrow> nat \<Rightarrow> bool" where
  "pending_at w due =
     (resizeListener w \<and> orientationListener w
      \<and> (case resizeTimeout w of None \<Rightarrow> False | Some i \<Rightarrow> timers w = [(i, due)]))"

definition released :: "world \<Rightarrow> bool" where
  "released w = (\<not> resizeListener w \<and> \<not> orientationListener w \<and> timers w = [])"

definition owns_timers :: "world \<Rightarrow> bool" where
  "owns_timers w = list_all (\<lambda>entry. resizeTimeout w = Some (fst entry)) (timers w)"

text \<open>An observer with a container and a callback, and the options given.\<close>

definition observer_with :: "scaling_options \<Rightarrow> observer" where
  "observer_with options = \<lparr> obs_container = True, obs_callback = True, obs_options = options \<rparr>"

section \<open>Properties of the rounding to the nearest double\<close>

text \<open>
  Rounding to the nearest double keeps the order and leaves a double as it is. Both follow
  from the description of the exponent: for a positive \<open>x\<close> it is the \<open>e\<close> between -1022 and
  1024 with \<open>pow2 e \<le> x < pow2 (e + 1)\<close>, the lower bound dropped at -1022 and the upper
  one at 1024.
\<close>

lemma pow2_powi: "pow2 e = 2 powi e"
  by (simp add: pow2_def power_int_def field_simps)

lemma pow2_pos: "0 < pow2 e"
  by (simp add: pow2_powi)

lemma pow2_mono: "a \<le> b \<Longrightarrow> pow2 a \<le> pow2 b"
  by (simp add: pow2_powi power_int_increasing)

lemma pow2_add: "pow2 (a + b) = pow2 a * pow2 b"
  by (simp add: pow2_powi power_int_add)

lemma pow2_Suc: "pow2 (e + 1) = 2 * pow2 e"
proof -
  have "pow2 (e + 1) = pow2 e * pow2 1" by (rule pow2_add)
  then show ?thesis by (simp add: pow2_def [of 1])
qed

lemma pow2_nat: "pow2 (int k) = 2 ^ k"
  by (simp add: pow2_def)

lemma pow2_52: "pow2 e = 2 ^ 52 * pow2 (e - 52)"
proof -
  have "pow2 e = pow2 (52 + (e - 52))" by simp
  also have "\<dots> = pow2 52 * pow2 (e - 52)" by (rule pow2_add)
  finally show ?thesis by (simp add: pow2_def)
qed

lemma round_even_of_int: "round_even (of_int n) = n"
  by (simp add: round_even_def)

lemma round_even_bounds: "\<lfloor>x\<rfloor> \<le> round_even x \<and> round_even x \<le> \<lfloor>x\<rfloor> + 1"
  by (simp add: round_even_def Let_def)

lemma round_even_mono:
  assumes "x \<le> y"
  shows "round_even x \<le> round_even y"
proof (cases "\<lfloor>x\<rfloor> = \<lfloor>y\<rfloor>")
  case True
  with assms show ?thesis by (auto simp: round_even_def Let_def)
next
  case False
  with assms have "\<lfloor>x\<rfloor> < \<lfloor>y\<rfloor>" by (simp add: floor_mono order.strict_iff_order)
  then show ?thesis
    using round_even_bounds [of x] round_even_bounds [of y] by linarith
qed

lemma round_even_ge: "of_int a \<le> x \<Longrightarrow> a \<le> round_even x"
  using round_even_mono [of "of_int a" x] by (simp add: round_even_of_int)

lemma round_even_le: "x \<le> of_int b \<Longrightarrow> round_even x \<le> b"
  using round_even_mono [of x "of_int b"] by (simp add: round_even_of_int)

lemma halvings_spec:
  "1 \<le> x \<Longrightarrow> halvings n x \<le> n \<and> 2 ^ halvings n x \<le> x
     \<and> (x < 2 ^ (halvings n x + 1) \<or> halvings n x = n)"
proof (induction n arbitrary: x)
  case 0
  then show ?case by simp
next
  case (Suc n)
  show ?case
  proof (cases "2 \<le> x")
    case True
    then have "1 \<le> x / 2" by simp
    from Suc.IH [OF this] True show ?thesis by (auto simp: field_simps)
  next
    case False
    with Suc.prems show ?thesis by simp
  qed
qed

lemma doublings_spec:
  "0 < x \<Longrightarrow> x < 1 \<Longrightarrow> 0 < n \<Longrightarrow>
     0 < doublings n x \<and> doublings n x \<le> n
     \<and> x * 2 ^ doublings n x < 2
     \<and> (1 \<le> x * 2 ^ doublings n x \<or> doublings n x = n)"
proof (induction n arbitrary: x)
  case 0
  then show ?case by simp
next
  case (Suc n)
  show ?case
  proof (cases "x * 2 < 1")
    case True
    show ?thesis
    proof (cases "n = 0")
      case True
      with Suc.prems \<open>x * 2 < 1\<close> show ?thesis by simp
    next
      case False
      with Suc.IH [of "x * 2"] True Suc.prems show ?thesis
        by (auto simp: field_simps)
    qed
  next
    case False
    then have "doublings n (x * 2) = 0" by (cases n) simp_all
    with False Suc.prems show ?thesis by simp
  qed
qed

lemma exponent64_spec:
  assumes "0 < x"
  shows "- 1022 \<le> exponent64 x \<and> exponent64 x \<le> 1024
         \<and> (pow2 (exponent64 x) \<le> x \<or> exponent64 x = - 1022)
         \<and> (x < pow2 (exponent64 x + 1) \<or> exponent64 x = 1024)"
proof (cases "1 \<le> x")
  case True
  from halvings_spec [OF True, of 1024] True show ?thesis
    by (auto simp: exponent64_def pow2_def nat_add_distrib)
next
  case False
  then have lt: "x < 1" by simp
  let ?d = "doublings 1022 x"
  from doublings_spec [OF assms lt, of 1022]
  have d: "0 < ?d" "?d \<le> 1022" "x * 2 ^ ?d < 2" "1 \<le> x * 2 ^ ?d \<or> ?d = 1022"
    by simp_all
  have e: "exponent64 x = - int ?d" using False by (simp add: exponent64_def)
  have p: "pow2 (- int ?d) = 1 / 2 ^ ?d" using d(1) by (simp add: pow2_def)
  have "pow2 (- int ?d + 1) = 2 * pow2 (- int ?d)" by (rule pow2_Suc)
  then have p1: "pow2 (- int ?d + 1) = 2 / 2 ^ ?d" by (simp add: p)
  have "x < 2 / 2 ^ ?d" using d(3) by (simp add: field_simps)
  moreover have "1 / 2 ^ ?d \<le> x \<or> ?d = 1022" using d(4) by (auto simp: field_simps)
  ultimately show ?thesis using d(1,2) unfolding e p p1 by auto
qed

lemma exponent64_unique:
  assumes "0 < x" and "- 1022 \<le> e" and "e \<le> 1024"
    and "pow2 e \<le> x \<or> e = - 1022" and "x < pow2 (e + 1) \<or> e = 1024"
  shows "exponent64 x = e"
proof (rule ccontr)
  assume ne: "exponent64 x \<noteq> e"
  let ?e = "exponent64 x"
  from exponent64_spec [OF assms(1)]
  have s: "- 1022 \<le> ?e" "?e \<le> 1024" "pow2 ?e \<le> x \<or> ?e = - 1022"
    "x < pow2 (?e + 1) \<or> ?e = 1024" by simp_all
  show False
  proof (cases "?e < e")
    case True
    then have "x < pow2 (?e + 1)" and "pow2 e \<le> x" using s assms by auto
    moreover have "pow2 (?e + 1) \<le> pow2 e" using True by (intro pow2_mono) simp
    ultimately show False by simp
  next
    case False
    with ne have lt: "e < ?e" by simp
    then have "x < pow2 (e + 1)" and "pow2 ?e \<le> x" using s assms by auto
    moreover have "pow2 (e + 1) \<le> pow2 ?e" using lt by (intro pow2_mono) simp
    ultimately show False by simp
  qed
qed

lemma exponent64_mono:
  assumes "0 < x" and "x \<le> y"
  shows "exponent64 x \<le> exponent64 y"
proof (rule ccontr)
  assume "\<not> exponent64 x \<le> exponent64 y"
  then have lt: "exponent64 y < exponent64 x" by simp
  from assms have y: "0 < y" by simp
  from exponent64_spec [OF assms(1)] exponent64_spec [OF y] lt
  have "pow2 (exponent64 x) \<le> x" and "y < pow2 (exponent64 y + 1)" by auto
  moreover have "pow2 (exponent64 y + 1) \<le> pow2 (exponent64 x)"
    using lt by (intro pow2_mono) simp
  ultimately show False using assms(2) by simp
qed

lemma round64_pos:
  "0 < x \<Longrightarrow> round64 x = of_int (round_even (x / pow2 (exponent64 x - 52))) * pow2 (exponent64 x - 52)"
  by (simp add: round64_def Let_def)

lemma round64_minus: "round64 (- x) = - round64 x"
  by (simp add: round64_def Let_def sgn_minus)

lemma round64_nonneg:
  assumes "0 < x"
  shows "0 \<le> round64 x"
proof -
  have "0 \<le> x / pow2 (exponent64 x - 52)"
    using assms pow2_pos [of "exponent64 x - 52"] by simp
  then have "0 \<le> round_even (x / pow2 (exponent64 x - 52))"
    by (intro round_even_ge) simp
  then show ?thesis
    using pow2_pos [of "exponent64 x - 52"] by (simp add: round64_pos [OF assms])
qed

lemma round64_lower:
  assumes "0 < x" and "pow2 (exponent64 x) \<le> x"
  shows "pow2 (exponent64 x) \<le> round64 x"
proof -
  let ?u = "pow2 (exponent64 x - 52)"
  have "2 ^ 52 * ?u \<le> x" using assms(2) pow2_52 [of "exponent64 x"] by simp
  then have "of_int (2 ^ 52) \<le> x / ?u" using pow2_pos [of "exponent64 x - 52"]
    by (simp add: field_simps)
  then have "2 ^ 52 \<le> round_even (x / ?u)" by (rule round_even_ge)
  then have "(2 ^ 52 :: real) \<le> of_int (round_even (x / ?u))"
    by (metis of_int_le_iff of_int_numeral of_int_power)
  then have "2 ^ 52 * ?u \<le> of_int (round_even (x / ?u)) * ?u"
    using pow2_pos [of "exponent64 x - 52"] by (intro mult_right_mono) simp_all
  then show ?thesis
    using pow2_52 [of "exponent64 x"] by (simp add: round64_pos [OF assms(1)])
qed

lemma round64_upper:
  assumes "0 < x" and "x \<le> pow2 (exponent64 x + 1)"
  shows "round64 x \<le> pow2 (exponent64 x + 1)"
proof -
  let ?u = "pow2 (exponent64 x - 52)"
  have p: "pow2 (exponent64 x + 1) = 2 ^ 53 * ?u"
    using pow2_52 [of "exponent64 x"] by (simp add: pow2_Suc)
  then have "x / ?u \<le> of_int (2 ^ 53)" using assms(2) pow2_pos [of "exponent64 x - 52"]
    by (simp add: field_simps)
  then have "round_even (x / ?u) \<le> 2 ^ 53" by (rule round_even_le)
  then have "of_int (round_even (x / ?u)) \<le> (2 ^ 53 :: real)"
    by (metis of_int_le_iff of_int_numeral of_int_power)
  then have "of_int (round_even (x / ?u)) * ?u \<le> 2 ^ 53 * ?u"
    using pow2_pos [of "exponent64 x - 52"] by (intro mult_right_mono) simp_all
  then show ?thesis
    by (simp add: round64_pos [OF assms(1)] p)
qed

lemma round64_mono_pos:
  assumes "0 < x" and "x \<le> y"
  shows "round64 x \<le> round64 y"
proof -
  from assms have y: "0 < y" by simp
  have le: "exponent64 x \<le> exponent64 y" by (rule exponent64_mono [OF assms])
  show ?thesis
  proof (cases "exponent64 x = exponent64 y")
    case True
    let ?u = "pow2 (exponent64 y - 52)"
    have "x / ?u \<le> y / ?u" using assms(2) pow2_pos [of "exponent64 y - 52"]
      by (simp add: divide_right_mono)
    then have "round_even (x / ?u) \<le> round_even (y / ?u)" by (rule round_even_mono)
    then have "of_int (round_even (x / ?u)) * ?u \<le> of_int (round_even (y / ?u)) * ?u"
      using pow2_pos [of "exponent64 y - 52"] by (intro mult_right_mono) simp_all
    then show ?thesis by (simp add: round64_pos [OF assms(1)] round64_pos [OF y] True)
  next
    case False
    with le have lt: "exponent64 x < exponent64 y" by simp
    from exponent64_spec [OF assms(1)] exponent64_spec [OF y] lt
    have "x < pow2 (exponent64 x + 1)" and "pow2 (exponent64 y) \<le> y" by auto
    then have "round64 x \<le> pow2 (exponent64 x + 1)" and "pow2 (exponent64 y) \<le> round64 y"
      using round64_upper [OF assms(1)] round64_lower [OF y] by simp_all
    moreover have "pow2 (exponent64 x + 1) \<le> pow2 (exponent64 y)"
      using lt by (intro pow2_mono) simp
    ultimately show ?thesis by simp
  qed
qed

lemma round64_mono:
  assumes "x \<le> y"
  shows "round64 x \<le> round64 y"
proof -
  have neg: "round64 a \<le> 0" if "a < 0" for a
    using round64_nonneg [of "- a"] that by (simp add: round64_minus)
  consider "0 < x" | "x \<le> 0" "0 \<le> y" | "y < 0" by linarith
  then show ?thesis
  proof cases
    case 1
    then show ?thesis by (rule round64_mono_pos [OF _ assms])
  next
    case 2
    have "round64 x \<le> 0" using 2(1) neg [of x] by (cases "x = 0") (simp_all add: round64_def)
    moreover have "0 \<le> round64 y"
      using 2(2) round64_nonneg [of y] by (cases "y = 0") (simp_all add: round64_def)
    ultimately show ?thesis by simp
  next
    case 3
    then have "0 < - y" and "- y \<le> - x" using assms by simp_all
    then have "round64 (- y) \<le> round64 (- x)" by (rule round64_mono_pos)
    then show ?thesis by (simp add: round64_minus)
  qed
qed

lemma round64_grid:
  assumes "0 < m" and "- 1022 \<le> e" and "e \<le> 1024"
    and "2 ^ 52 \<le> m \<or> e = - 1022" and "m < 2 ^ 53 \<or> e = 1024"
  shows "round64 (of_int m * pow2 (e - 52)) = of_int m * pow2 (e - 52)"
proof -
  let ?u = "pow2 (e - 52)"
  let ?v = "of_int m * ?u"
  have u: "0 < ?u" by (rule pow2_pos)
  have v: "0 < ?v" using assms(1) u by simp
  have lo: "pow2 e \<le> ?v" if "2 ^ 52 \<le> m"
  proof -
    from that have "(2 ^ 52 :: real) \<le> of_int m"
      by (metis of_int_le_iff of_int_numeral of_int_power)
    then have "2 ^ 52 * ?u \<le> ?v" using u by (intro mult_right_mono) simp_all
    then show ?thesis using pow2_52 [of e] by simp
  qed
  have hi: "?v < pow2 (e + 1)" if "m < 2 ^ 53"
  proof -
    from that have "of_int m < (2 ^ 53 :: real)"
      by (metis of_int_less_iff of_int_numeral of_int_power)
    then have "?v < 2 ^ 53 * ?u" using u by (intro mult_strict_right_mono) simp_all
    then show ?thesis using pow2_52 [of e] by (simp add: pow2_Suc)
  qed
  have "exponent64 ?v = e"
    using assms(2-5) lo hi by (intro exponent64_unique [OF v]) auto
  then show ?thesis using u by (simp add: round64_pos [OF v] round_even_of_int)
qed

lemma round64_idem_pos:
  assumes "0 < x"
  shows "round64 (round64 x) = round64 x"
proof -
  let ?e = "exponent64 x"
  let ?u = "pow2 (?e - 52)"
  let ?m = "round_even (x / ?u)"
  have u: "0 < ?u" by (rule pow2_pos)
  from exponent64_spec [OF assms]
  have s: "- 1022 \<le> ?e" "?e \<le> 1024" "pow2 ?e \<le> x \<or> ?e = - 1022"
    "x < pow2 (?e + 1) \<or> ?e = 1024" by simp_all
  have r: "round64 x = of_int ?m * ?u" by (rule round64_pos [OF assms])
  have m0: "0 \<le> ?m" using assms u by (intro round_even_ge) simp
  have lo: "2 ^ 52 \<le> ?m \<or> ?e = - 1022"
  proof (cases "pow2 ?e \<le> x")
    case True
    then have "2 ^ 52 * ?u \<le> x" using pow2_52 [of ?e] by simp
    then have "of_int (2 ^ 52) \<le> x / ?u" using u by (simp add: field_simps)
    then show ?thesis by (intro disjI1 round_even_ge)
  next
    case False
    with s(3) show ?thesis by simp
  qed
  have hi: "?m \<le> 2 ^ 53 \<or> ?e = 1024"
  proof (cases "x < pow2 (?e + 1)")
    case True
    then have "x \<le> 2 ^ 53 * ?u" using pow2_52 [of ?e] by (simp add: pow2_Suc)
    then have "x / ?u \<le> of_int (2 ^ 53)" using u by (simp add: field_simps)
    then show ?thesis by (intro disjI1 round_even_le)
  next
    case False
    with s(4) show ?thesis by simp
  qed
  show ?thesis
  proof (cases "?m = 0")
    case True
    then have "round64 x = 0" by (simp add: r)
    moreover have "round64 0 = 0" by (simp add: round64_def)
    ultimately show ?thesis by simp
  next
    case False
    with m0 have mpos: "0 < ?m" by simp
    show ?thesis
    proof (cases "?m = 2 ^ 53 \<and> ?e \<noteq> 1024")
      case True
      then have e1: "?e + 1 \<le> 1024" using s(2) by simp
      have "of_int ?m * ?u = of_int (2 ^ 52) * pow2 (?e + 1 - 52)"
        using True pow2_Suc [of "?e - 52"] by (simp add: algebra_simps)
      moreover have "round64 (of_int (2 ^ 52) * pow2 (?e + 1 - 52))
                      = of_int (2 ^ 52) * pow2 (?e + 1 - 52)"
        using s(1) e1 by (intro round64_grid) simp_all
      ultimately show ?thesis by (simp add: r)
    next
      case False
      with hi have "?m < 2 ^ 53 \<or> ?e = 1024" by auto
      then have "round64 (of_int ?m * ?u) = of_int ?m * ?u"
        using mpos s(1,2) lo by (intro round64_grid) simp_all
      then show ?thesis by (simp add: r)
    qed
  qed
qed

lemma round64_idem: "round64 (round64 x) = round64 x"
proof -
  consider "0 < x" | "x = 0" | "x < 0" by linarith
  then show ?thesis
  proof cases
    case 1
    then show ?thesis by (rule round64_idem_pos)
  next
    case 2
    then show ?thesis by (simp add: round64_def)
  next
    case 3
    then have "round64 (round64 (- x)) = round64 (- x)" by (intro round64_idem_pos) simp
    then show ?thesis by (simp add: round64_minus)
  qed
qed

lemma halvings_numeral:
  "halvings (numeral k) x = (if 2 \<le> x then Suc (halvings (pred_numeral k) (x / 2)) else 0)"
  by (simp add: numeral_eq_Suc)

lemma doublings_numeral:
  "doublings (numeral k) x = (if x < 1 then Suc (doublings (pred_numeral k) (x * 2)) else 0)"
  by (simp add: numeral_eq_Suc)

lemmas round64_eval =
  round64_def exponent64_def pow2_def round_even_def Let_def halvings_numeral doublings_numeral

lemma rounding_round64: "rounding round64"
  unfolding rounding_def
proof (intro conjI allI)
  show "mono round64" by (simp add: mono_def round64_mono)
  show "round64 (round64 x) = round64 x" for x by (rule round64_idem)
  show "round64 0 = 0" by (simp add: round64_def)
  show "round64 (1 / 2) = 1 / 2" by (simp add: round64_eval)
qed

section \<open>Properties of the dimension solver\<close>

lemmas solver_defs =
  getOptimalDimensions_def js_div_def BASE_width_def BASE_height_def BASE_aspectRatio_def

text \<open>Without rounding the rounded solver is the solver of the first section.\<close>

lemma getOptimalDimensions_fl_exact:
  "getOptimalDimensions_fl (\<lambda>x. x) w h f = getOptimalDimensions w h f"
  by (simp add: getOptimalDimensions_fl_def js_div_fl_def target_ratio_fl_def solver_defs Let_def)

text \<open>
  The two branches of the rounded solver, for the evaluation at a given viewport: \<open>q\<close> is
  the rounded ratio of the viewport, \<open>r\<close> the target ratio of the resolved orientation.
\<close>

lemma getOptimalDimensions_fl_fit_height:
  assumes "h \<noteq> 0" and "q = rnd (w / h)"
    and "orient = (if f = Some ''landscape'' \<or> \<not> truthy f \<and> 1 < q then Landscape else Portrait)"
    and "r = target_ratio_fl rnd orient" and "r \<le> q" and "tw = rnd (h * r)"
  shows "getOptimalDimensions_fl rnd w h f =
           \<lparr> width = tw, height = h,
             scale = min (rnd (tw / BASE_width)) (rnd (h / BASE_height)),
             orientation = orient,
             offsetX = rnd (rnd (w - tw) / 2), offsetY = rnd (rnd (h - h) / 2) \<rparr>"
  using assms
  by (auto simp: getOptimalDimensions_fl_def js_div_fl_def Let_def split: if_splits)

lemma getOptimalDimensions_fl_fit_width:
  assumes "h \<noteq> 0" and "q = rnd (w / h)"
    and "orient = (if f = Some ''landscape'' \<or> \<not> truthy f \<and> 1 < q then Landscape else Portrait)"
    and "r = target_ratio_fl rnd orient" and "q < r" and "th = rnd (w / r)"
  shows "getOptimalDimensions_fl rnd w h f =
           \<lparr> width = w, height = th,
             scale = min (rnd (w / BASE_width)) (rnd (th / BASE_height)),
             orientation = orient,
             offsetX = rnd (rnd (w - w) / 2), offsetY = rnd (rnd (h - th) / 2) \<rparr>"
  using assms
  by (auto simp: getOptimalDimensions_fl_def js_div_fl_def Let_def split: if_splits)

lemmas fl_eval = target_ratio_fl_def BASE_width_def BASE_height_def round64_eval

text \<open>The solver in binary64 at three viewports that the statements below are read at.\<close>

lemma getOptimalDimensions_fl_1920_1080:
  "getOptimalDimensions_fl round64 1920 1080 None =
     \<lparr> width = 1920, height = 1080, scale = 1, orientation = Landscape,
       offsetX = 0, offsetY = 0 \<rparr>"
proof -
  have "getOptimalDimensions_fl round64 1920 1080 None =
     \<lparr> width = 1920, height = 1080,
       scale = min (round64 (1920 / BASE_width)) (round64 (1080 / BASE_height)),
       orientation = Landscape,
       offsetX = round64 (round64 (1920 - 1920) / 2),
       offsetY = round64 (round64 (1080 - 1080) / 2) \<rparr>"
    by (rule getOptimalDimensions_fl_fit_height
          [where q = "2001599834386887 / 1125899906842624"
             and r = "2001599834386887 / 1125899906842624"])
       (simp_all add: fl_eval)
  then show ?thesis by (simp add: fl_eval)
qed

lemma getOptimalDimensions_fl_1080_1920:
  "getOptimalDimensions_fl round64 1080 1920 None =
     \<lparr> width = 1080, height = 1920, scale = 9 / 16, orientation = Portrait,
       offsetX = 0, offsetY = 0 \<rparr>"
proof -
  have "getOptimalDimensions_fl round64 1080 1920 None =
     \<lparr> width = 1080, height = 1920,
       scale = min (round64 (1080 / BASE_width)) (round64 (1920 / BASE_height)),
       orientation = Portrait,
       offsetX = round64 (round64 (1080 - 1080) / 2),
       offsetY = round64 (round64 (1920 - 1920) / 2) \<rparr>"
    by (rule getOptimalDimensions_fl_fit_height [where q = "9 / 16" and r = "9 / 16"])
       (simp_all add: fl_eval)
  then show ?thesis by (simp add: fl_eval)
qed

lemma getOptimalDimensions_fl_1366_768:
  "getOptimalDimensions_fl round64 1366 768 (Some ''portrait'') =
     \<lparr> width = 432, height = 768, scale = 8106479329266893 / 36028797018963968,
       orientation = Portrait, offsetX = 467, offsetY = 0 \<rparr>"
proof -
  have "getOptimalDimensions_fl round64 1366 768 (Some ''portrait'') =
     \<lparr> width = 432, height = 768,
       scale = min (round64 (432 / BASE_width)) (round64 (768 / BASE_height)),
       orientation = Portrait,
       offsetX = round64 (round64 (1366 - 432) / 2),
       offsetY = round64 (round64 (768 - 768) / 2) \<rparr>"
    by (rule getOptimalDimensions_fl_fit_height
          [where q = "round64 (1366 / 768)" and r = "9 / 16"])
       (simp_all add: fl_eval)
  then show ?thesis by (simp add: fl_eval)
qed

text \<open>
  C2, as the code has it. For a viewport of positive width and height the returned scale is
  the smaller of fitted width over 1920 and fitted height over 1080, each quotient rounded:
  the reference rectangle is the unrotated one in both orientations. In landscape this is
  the scale against the orientation-appropriate rectangle. The statement holds for every
  rounding, that of binary64 and none among them.
\<close>

theorem getOptimalDimensions_scale:
  assumes "0 < w" and "0 < h"
  shows "scale (getOptimalDimensions_fl rnd w h f) =
           min (rnd (width (getOptimalDimensions_fl rnd w h f) / BASE_width))
               (rnd (height (getOptimalDimensions_fl rnd w h f) / BASE_height))
         \<and> (orientation (getOptimalDimensions_fl rnd w h f) = Landscape \<longrightarrow>
              scale (getOptimalDimensions_fl rnd w h f)
                = spec_scale_fl rnd (getOptimalDimensions_fl rnd w h f))"
  using assms
  by (auto simp: getOptimalDimensions_fl_def js_div_fl_def Let_def spec_scale_fl_def
        spec_target_rect_def)

text \<open>
  The scale theorem in binary64 at the reference viewport of 1920 by 1080, which is
  landscape.
\<close>

theorem getOptimalDimensions_scale_witness:
  "scale (getOptimalDimensions_fl round64 1920 1080 None) =
     min (round64 (width (getOptimalDimensions_fl round64 1920 1080 None) / BASE_width))
         (round64 (height (getOptimalDimensions_fl round64 1920 1080 None) / BASE_height))
   \<and> orientation (getOptimalDimensions_fl round64 1920 1080 None) = Landscape
   \<and> scale (getOptimalDimensions_fl round64 1920 1080 None)
       = spec_scale_fl round64 (getOptimalDimensions_fl round64 1920 1080 None)"
proof -
  have pos: "(0 :: real) < 1920" "(0 :: real) < 1080" by simp_all
  have landscape: "orientation (getOptimalDimensions_fl round64 1920 1080 None) = Landscape"
    by (simp add: getOptimalDimensions_fl_1920_1080)
  from getOptimalDimensions_scale [OF pos, of round64 None] landscape show ?thesis by blast
qed

text \<open>
  C2 as the specification states it fails in portrait. At 1080 by 1920 the fitted rectangle
  is the whole viewport; against the rotated rectangle of 1080 by 1920 the scale is 1, and
  the solver returns 1080/1920.
\<close>

theorem getOptimalDimensions_scale_counterexample:
  "orientation (getOptimalDimensions_fl round64 1080 1920 None) = Portrait
   \<and> scale (getOptimalDimensions_fl round64 1080 1920 None) = 9 / 16
   \<and> spec_scale_fl round64 (getOptimalDimensions_fl round64 1080 1920 None) = 1
   \<and> scale (getOptimalDimensions_fl round64 1080 1920 None)
       \<noteq> spec_scale_fl round64 (getOptimalDimensions_fl round64 1080 1920 None)"
  unfolding getOptimalDimensions_fl_1080_1920
  by (simp add: spec_scale_fl_def spec_target_rect_def fl_eval)

text \<open>
  C3, as the code has it. With no forced orientation (\<^verbatim>\<open>null\<close>, or the empty string,
  which is falsy too) and a viewport of positive width and height, the orientation is
  landscape exactly when width over height is greater than 1; a square viewport, where the
  ratio is exactly 1, is portrait.
\<close>

theorem getOptimalDimensions_auto_orientation:
  assumes "0 < w" and "0 < h" and "\<not> truthy f"
  shows "(orientation (getOptimalDimensions w h f) = Landscape \<longleftrightarrow> 1 < w / h)
         \<and> (w / h = 1 \<longrightarrow> orientation (getOptimalDimensions w h f) = Portrait)"
  using assms by (auto simp: solver_defs Let_def)

text \<open>The orientation theorem at the reference viewport of 1920 by 1080.\<close>

theorem getOptimalDimensions_auto_orientation_witness:
  "orientation (getOptimalDimensions 1920 1080 None) = Landscape"
  using getOptimalDimensions_auto_orientation [of 1920 1080 None] by simp

text \<open>
  C3 as the specification states it fails at the tie: a square viewport of 1000 by 1000 has
  the aspect ratio 1 and is resolved as portrait, not landscape.
\<close>

theorem getOptimalDimensions_tie_counterexample:
  "(1000 :: real) / 1000 = 1
   \<and> orientation (getOptimalDimensions 1000 1000 None) = Portrait
   \<and> orientation (getOptimalDimensions 1000 1000 None) \<noteq> Landscape"
  by (simp add: solver_defs Let_def)




text \<open>
  C9, as the code has it. The solver has no failure result. For a viewport of width or
  height zero or below it returns the same kind of object as for any other input, with the
  offsets and the scale computed from the fitted rectangle as always, each operation
  rounded; when the width is zero, the fitted rectangle is 0 by 0, the scale and the
  horizontal offset are 0, and the orientation is portrait unless landscape is forced.
\<close>

theorem getOptimalDimensions_degenerate:
  assumes "rounding rnd" and "w \<le> 0 \<or> h \<le> 0"
  shows "offsetX (getOptimalDimensions_fl rnd w h f)
           = rnd (rnd (w - width (getOptimalDimensions_fl rnd w h f)) / 2)
         \<and> offsetY (getOptimalDimensions_fl rnd w h f)
             = rnd (rnd (h - height (getOptimalDimensions_fl rnd w h f)) / 2)
         \<and> scale (getOptimalDimensions_fl rnd w h f) =
             min (rnd (width (getOptimalDimensions_fl rnd w h f) / BASE_width))
                 (rnd (height (getOptimalDimensions_fl rnd w h f) / BASE_height))
         \<and> (w = 0 \<longrightarrow>
              width (getOptimalDimensions_fl rnd w h f) = 0
              \<and> height (getOptimalDimensions_fl rnd w h f) = 0
              \<and> scale (getOptimalDimensions_fl rnd w h f) = 0
              \<and> offsetX (getOptimalDimensions_fl rnd w h f) = 0
              \<and> orientation (getOptimalDimensions_fl rnd w h f)
                  = (if f = Some ''landscape'' then Landscape else Portrait))"
proof -
  from assms(1) have mono: "\<And>x y. x \<le> y \<Longrightarrow> rnd x \<le> rnd y"
    and zero: "rnd 0 = 0" and half: "rnd (1 / 2) = 1 / 2"
    by (simp_all add: rounding_def mono_def)
  have pos: "0 < target_ratio_fl rnd orient" for orient
  proof -
    have "rnd (1 / 2) \<le> rnd (16 / 9)" and "rnd (1 / 2) \<le> rnd (BASE_height / BASE_width)"
      by (rule mono, simp add: BASE_height_def BASE_width_def)+
    then show ?thesis
      by (cases orient) (simp_all add: target_ratio_fl_def half)
  qed
  have neg: "\<not> target_ratio_fl rnd orient \<le> 0" for orient
    using pos [of orient] by simp
  show ?thesis
    by (auto simp: getOptimalDimensions_fl_def js_div_fl_def Let_def zero neg)
qed

text \<open>The degenerate case in binary64 at a viewport of width zero.\<close>

theorem getOptimalDimensions_degenerate_witness:
  "width (getOptimalDimensions_fl round64 0 1080 None) = 0
   \<and> height (getOptimalDimensions_fl round64 0 1080 None) = 0
   \<and> scale (getOptimalDimensions_fl round64 0 1080 None) = 0
   \<and> offsetX (getOptimalDimensions_fl round64 0 1080 None) = 0
   \<and> orientation (getOptimalDimensions_fl round64 0 1080 None) = Portrait"
proof -
  have deg: "(0 :: real) \<le> 0 \<or> (1080 :: real) \<le> 0" by simp
  have "(0 :: real) = 0 \<longrightarrow>
      width (getOptimalDimensions_fl round64 0 1080 None) = 0
      \<and> height (getOptimalDimensions_fl round64 0 1080 None) = 0
      \<and> scale (getOptimalDimensions_fl round64 0 1080 None) = 0
      \<and> offsetX (getOptimalDimensions_fl round64 0 1080 None) = 0
      \<and> orientation (getOptimalDimensions_fl round64 0 1080 None)
          = (if None = Some ''landscape'' then Landscape else Portrait)"
    using getOptimalDimensions_degenerate [OF rounding_round64 deg, of None] by blast
  then show ?thesis by simp
qed

text \<open>
  C9 as the specification states it fails: at a viewport of height zero the division yields
  \<^verbatim>\<open>Infinity\<close>, the landscape branch fits to the height, and the solver returns a
  numeric result.
\<close>

theorem getOptimalDimensions_zero_height_counterexample:
  "getOptimalDimensions 1920 0 None =
     \<lparr> width = 0, height = 0, scale = 0, orientation = Landscape, offsetX = 960, offsetY = 0 \<rparr>"
  by (simp add: solver_defs Let_def)

text \<open>
  C10, as the code has it. The viewport sizes are positive and the arithmetic is rounded,
  by any rounding. The fitted rectangle has the aspect ratio of the resolved orientation in the
  direction the code computes it, with one rounding: where the solver fits to the height,
  the height is the viewport height and the width is the rounded product of height and
  ratio; where it fits to the width, the width is the viewport width and the height is the
  rounded quotient of width and ratio. The ratio is the double of 16/9 in landscape and of
  1080/1920 in portrait.
\<close>

theorem getOptimalDimensions_fl_aspect_ratio:
  assumes "0 < w" and "0 < h"
  shows "(height (getOptimalDimensions_fl rnd w h f) = h
          \<and> width (getOptimalDimensions_fl rnd w h f) =
              rnd (height (getOptimalDimensions_fl rnd w h f)
                   * target_ratio_fl rnd (orientation (getOptimalDimensions_fl rnd w h f)))
          \<and> target_ratio_fl rnd (orientation (getOptimalDimensions_fl rnd w h f)) \<le> rnd (w / h))
         \<or> (width (getOptimalDimensions_fl rnd w h f) = w
          \<and> height (getOptimalDimensions_fl rnd w h f) =
              rnd (width (getOptimalDimensions_fl rnd w h f)
                   / target_ratio_fl rnd (orientation (getOptimalDimensions_fl rnd w h f)))
          \<and> rnd (w / h) < target_ratio_fl rnd (orientation (getOptimalDimensions_fl rnd w h f)))"
  using assms(2)
  by (auto simp: getOptimalDimensions_fl_def js_div_fl_def Let_def)

text \<open>
  In binary64 at 1366 by 768 with portrait forced: the solver fits to the height and the
  width is 768 times 1080/1920, which is 432.
\<close>

theorem getOptimalDimensions_fl_aspect_ratio_witness:
  "height (getOptimalDimensions_fl round64 1366 768 (Some ''portrait'')) = 768
   \<and> width (getOptimalDimensions_fl round64 1366 768 (Some ''portrait'')) =
       round64 (height (getOptimalDimensions_fl round64 1366 768 (Some ''portrait''))
                * target_ratio_fl round64 Portrait)"
proof -
  have pos: "(0 :: real) < 1366" "(0 :: real) < 768" by simp_all
  have o: "orientation (getOptimalDimensions_fl round64 1366 768 (Some ''portrait'')) = Portrait"
    by (simp add: getOptimalDimensions_fl_1366_768)
  have c: "\<not> round64 (1366 / 768) < target_ratio_fl round64 Portrait"
    by (simp add: fl_eval)
  from getOptimalDimensions_fl_aspect_ratio [OF pos, of round64 "Some ''portrait''", unfolded o] c
  show ?thesis by blast
qed

text \<open>
  C10 as the specification states it fails in binary64. The viewport is 301.2 by 602.4, as
  the doubles nearest to these. The ratio is 1/2, the orientation portrait, and the solver
  fits to the width: the height is the rounded quotient of the width and 1080/1920. That
  height times 1080/1920 is not the width again, neither exactly nor rounded.
\<close>

theorem getOptimalDimensions_fl_ratio_counterexample:
  "round64 (5298766436578099 / 17592186044416) = 5298766436578099 / 17592186044416
   \<and> round64 (5298766436578099 / 8796093022208) = 5298766436578099 / 8796093022208
   \<and> orientation (getOptimalDimensions_fl round64 (5298766436578099 / 17592186044416)
        (5298766436578099 / 8796093022208) None) = Portrait
   \<and> width (getOptimalDimensions_fl round64 (5298766436578099 / 17592186044416)
        (5298766436578099 / 8796093022208) None) = 5298766436578099 / 17592186044416
   \<and> height (getOptimalDimensions_fl round64 (5298766436578099 / 17592186044416)
        (5298766436578099 / 8796093022208) None) = 1177503652572911 / 2199023255552
   \<and> (1177503652572911 / 2199023255552 :: real) * (1080 / 1920)
       \<noteq> 5298766436578099 / 17592186044416
   \<and> round64 (1177503652572911 / 2199023255552 * round64 (1080 / 1920))
       = 1324691609144525 / 4398046511104
   \<and> (1324691609144525 / 4398046511104 :: real) \<noteq> 5298766436578099 / 17592186044416"
proof -
  have d: "getOptimalDimensions_fl round64 (5298766436578099 / 17592186044416)
        (5298766436578099 / 8796093022208) None =
      \<lparr> width = 5298766436578099 / 17592186044416,
        height = 1177503652572911 / 2199023255552,
        scale = min (round64 (5298766436578099 / 17592186044416 / BASE_width))
                    (round64 (1177503652572911 / 2199023255552 / BASE_height)),
        orientation = Portrait,
        offsetX = round64 (round64 (5298766436578099 / 17592186044416
                                     - 5298766436578099 / 17592186044416) / 2),
        offsetY = round64 (round64 (5298766436578099 / 8796093022208
                                     - 1177503652572911 / 2199023255552) / 2) \<rparr>"
    by (rule getOptimalDimensions_fl_fit_width [where q = "1 / 2" and r = "9 / 16"])
       (simp_all add: fl_eval)
  show ?thesis
    unfolding d by (simp add: fl_eval)
qed

text \<open>In exact arithmetic the aspect ratio of the fitted rectangle is exact.\<close>

lemma getOptimalDimensions_exact_aspect_ratio:
  assumes "0 < w" and "0 < h"
  shows "width (getOptimalDimensions w h f) =
           height (getOptimalDimensions w h f)
             * (case orientation (getOptimalDimensions w h f) of
                  Landscape \<Rightarrow> 1920 / 1080 | Portrait \<Rightarrow> 1080 / 1920)"
  using assms by (auto simp: solver_defs Let_def field_simps)

section \<open>Properties of the text fitter\<close>

lemmas option_defs =
  opt_maxReduction_def opt_minFontSize_def opt_preferWordWrap_def opt_respectLineHeight_def
  opt_step_def dflt_def

subsection \<open>The shrink loop\<close>

text \<open>
  Each lemma follows the recursion of the loop: one step when the condition holds, the
  state as it is when it does not. The results are read off the returned tuple (element,
  font size, attempts, layouts read).
\<close>

lemma fontReductionLoop_size_le:
  assumes "0 \<le> stp" "0 \<le> m"
  shows "fst (snd (fontReductionLoop host cw m stp rlh olh ofs el c atts reads)) \<le> c"
  using assms
proof (induction host cw m stp rlh olh ofs el c atts reads rule: fontReductionLoop.induct)
  case (1 host cw m stp rlh olh ofs el c atts reads)
  show ?case
  proof (cases "scrollWidth (host reads) > cw \<and> c > m \<and> atts < maxAttempts")
    case True
    then have "0 \<le> c" using "1.prems" by simp
    then have step_le: "c * (1 - stp) \<le> c"
      using "1.prems" by (simp add: mult_left_le)
    from True "1.IH" "1.prems"
    have "fst (snd (fontReductionLoop host cw m stp rlh olh ofs el c atts reads)) \<le> c * (1 - stp)"
      by (subst fontReductionLoop.simps) simp
    with step_le show ?thesis by simp
  next
    case False
    then show ?thesis by (subst fontReductionLoop.simps) auto
  qed
qed

lemma fontReductionLoop_attempts:
  "atts \<le> fst (snd (snd (fontReductionLoop host cw m stp rlh olh ofs el c atts reads)))
   \<and> fst (snd (snd (fontReductionLoop host cw m stp rlh olh ofs el c atts reads))) \<le> max atts maxAttempts"
proof (induction host cw m stp rlh olh ofs el c atts reads rule: fontReductionLoop.induct)
  case (1 host cw m stp rlh olh ofs el c atts reads)
  show ?case
  proof (cases "scrollWidth (host reads) > cw \<and> c > m \<and> atts < maxAttempts")
    case True
    with "1.IH" show ?thesis
      by (subst (1 2) fontReductionLoop.simps) auto
  next
    case False
    then show ?thesis by (subst (1 2) fontReductionLoop.simps) auto
  qed
qed

lemma fontReductionLoop_reads:
  "snd (snd (snd (fontReductionLoop host cw m stp rlh olh ofs el c atts reads)))
     = reads + (fst (snd (snd (fontReductionLoop host cw m stp rlh olh ofs el c atts reads))) - atts) + 1"
proof (induction host cw m stp rlh olh ofs el c atts reads rule: fontReductionLoop.induct)
  case (1 host cw m stp rlh olh ofs el c atts reads)
  show ?case
  proof (cases "scrollWidth (host reads) > cw \<and> c > m \<and> atts < maxAttempts")
    case True
    have "atts + 1 \<le> fst (snd (snd (fontReductionLoop host cw m stp rlh olh ofs
        (applyFontSize rlh olh ofs (c * (1 - stp)) el) (c * (1 - stp)) (atts + 1) (reads + 1))))"
      using fontReductionLoop_attempts by blast
    with True "1.IH" show ?thesis
      by (subst (1 2) fontReductionLoop.simps) auto
  next
    case False
    then show ?thesis by (subst (1 2) fontReductionLoop.simps) auto
  qed
qed

lemma applyFontSize_whiteSpace: "whiteSpace (applyFontSize rlh olh ofs c el) = whiteSpace el"
  by (simp add: applyFontSize_def Let_def)

lemma fontReductionLoop_whiteSpace:
  "whiteSpace (fst (fontReductionLoop host cw m stp rlh olh ofs el c atts reads)) = whiteSpace el"
proof (induction host cw m stp rlh olh ofs el c atts reads rule: fontReductionLoop.induct)
  case (1 host cw m stp rlh olh ofs el c atts reads)
  show ?case
  proof (cases "scrollWidth (host reads) > cw \<and> c > m \<and> atts < maxAttempts")
    case True
    with "1.IH" show ?thesis
      by (subst fontReductionLoop.simps) (auto simp: applyFontSize_whiteSpace)
  next
    case False
    then show ?thesis by (subst fontReductionLoop.simps) auto
  qed
qed

lemma fontReductionLoop_at_floor:
  "c \<le> m \<Longrightarrow>
   fontReductionLoop host cw m stp rlh olh ofs el c atts reads = (el, c, atts, reads + 1)"
  by (subst fontReductionLoop.simps) auto

subsection \<open>The fitter as a whole\<close>

text \<open>
  The definition of the fitter for an element that is present, with the result of the loop
  taken apart by projections.
\<close>

lemma intelligentTextFit_unfold:
  "intelligentTextFit host (Some el) options =
    (let orig = computedFontSize el;
         olh = (case computedLineHeight el of None \<Rightarrow> orig * (12 / 10)
                | Some lh \<Rightarrow> if lh = 0 then orig * (12 / 10) else lh);
         el1 = (if datasetOriginalFontSize el = None
                then el\<lparr> datasetOriginalFontSize := Some orig, datasetOriginalLineHeight := Some olh \<rparr>
                else el);
         tryWrap = (opt_preferWordWrap options \<and> CHR '' '' \<in> set (textContent el));
         el2 = (if tryWrap then enableWrapping el1 else el1);
         reads0 = (if tryWrap then 1 else 0 :: nat);
         m = max (opt_minFontSize options) (orig * opt_maxReduction options);
         L = fontReductionLoop host (clientWidth el) m (opt_step options)
               (opt_respectLineHeight options) olh orig (el2\<lparr> whiteSpace := ''nowrap'' \<rparr>) orig 0 reads0;
         el4 = fst L; c = fst (snd L); atts = fst (snd (snd L)); reads1 = snd (snd (snd L));
         fts = (scrollWidth (host reads1) \<le> clientWidth el)
     in if tryWrap \<and> scrollWidth (host 0) \<le> clientWidth el \<and> scrollHeight (host 0) \<le> clientHeight el
        then Some (\<lparr> methodName = WordWrap, fontSize = orig, reduction = Finite 0, fits = True,
                     attempts = None \<rparr>, el2, 1)
        else Some (\<lparr> methodName = (if fts then FontReduction else Hybrid),
                      fontSize = c, reduction = js_div (orig - c) orig,
                      fits = (scrollWidth (host (reads1 + 1)) \<le> clientWidth el
                              \<and> scrollHeight (host (reads1 + 1)) \<le> clientHeight el),
                      attempts = Some atts \<rparr>,
                   (if \<not> fts \<and> opt_preferWordWrap options then enableWrapping el4 else el4),
                   reads1 + 2))"
  by (simp add: intelligentTextFit_def Let_def enableWrapping_def split_beta)

lemma intelligentTextFit_cases [case_names wrapped shrunk]:
  assumes wrapped: "\<And>el2.
      opt_preferWordWrap options \<Longrightarrow>
      scrollWidth (host 0) \<le> clientWidth el \<Longrightarrow> scrollHeight (host 0) \<le> clientHeight el \<Longrightarrow>
      intelligentTextFit host (Some el) options =
        Some (\<lparr> methodName = WordWrap, fontSize = computedFontSize el, reduction = Finite 0,
                 fits = True, attempts = None \<rparr>, el2, 1) \<Longrightarrow> P"
    and shrunk: "\<And>olh el3 reads0 el4 c atts reads1.
      fontReductionLoop host (clientWidth el)
         (max (opt_minFontSize options) (computedFontSize el * opt_maxReduction options))
         (opt_step options) (opt_respectLineHeight options) olh (computedFontSize el)
         el3 (computedFontSize el) 0 reads0 = (el4, c, atts, reads1) \<Longrightarrow>
      whiteSpace el3 = ''nowrap'' \<Longrightarrow>
      reads0 \<le> 1 \<Longrightarrow>
      intelligentTextFit host (Some el) options =
        Some (\<lparr> methodName = (if scrollWidth (host reads1) \<le> clientWidth el
                                then FontReduction else Hybrid),
                 fontSize = c,
                 reduction = js_div (computedFontSize el - c) (computedFontSize el),
                 fits = (scrollWidth (host (reads1 + 1)) \<le> clientWidth el
                         \<and> scrollHeight (host (reads1 + 1)) \<le> clientHeight el),
                 attempts = Some atts \<rparr>,
              (if \<not> scrollWidth (host reads1) \<le> clientWidth el \<and> opt_preferWordWrap options
               then enableWrapping el4 else el4),
              reads1 + 2) \<Longrightarrow> P"
  shows P
proof -
  define orig where "orig = computedFontSize el"
  define olh where "olh = (case computedLineHeight el of None \<Rightarrow> orig * (12 / 10)
                | Some lh \<Rightarrow> if lh = 0 then orig * (12 / 10) else lh)"
  define el1 where "el1 = (if datasetOriginalFontSize el = None
                then el\<lparr> datasetOriginalFontSize := Some orig, datasetOriginalLineHeight := Some olh \<rparr>
                else el)"
  define tryWrap where "tryWrap = (opt_preferWordWrap options \<and> CHR '' '' \<in> set (textContent el))"
  define el2 where "el2 = (if tryWrap then enableWrapping el1 else el1)"
  define reads0 :: nat where "reads0 = (if tryWrap then 1 else 0)"
  define L where "L = fontReductionLoop host (clientWidth el)
         (max (opt_minFontSize options) (orig * opt_maxReduction options))
         (opt_step options) (opt_respectLineHeight options) olh orig
         (el2\<lparr> whiteSpace := ''nowrap'' \<rparr>) orig 0 reads0"
  note defs = orig_def [symmetric] olh_def [symmetric] el1_def [symmetric]
    tryWrap_def [symmetric] el2_def [symmetric] reads0_def [symmetric] L_def [symmetric]
  show P
  proof (cases "tryWrap \<and> scrollWidth (host 0) \<le> clientWidth el
                 \<and> scrollHeight (host 0) \<le> clientHeight el")
    case True
    then have "intelligentTextFit host (Some el) options =
        Some (\<lparr> methodName = WordWrap, fontSize = computedFontSize el, reduction = Finite 0,
                 fits = True, attempts = None \<rparr>, el2, 1)"
      unfolding intelligentTextFit_unfold Let_def defs by (simp add: orig_def)
    with True show P by (intro wrapped [of el2]) (simp_all add: tryWrap_def)
  next
    case False
    obtain el4 c atts reads1 where Leq: "L = (el4, c, atts, reads1)"
      by (cases L) auto
    from False have "intelligentTextFit host (Some el) options =
        Some (\<lparr> methodName = (if scrollWidth (host reads1) \<le> clientWidth el
                                then FontReduction else Hybrid),
                 fontSize = c,
                 reduction = js_div (computedFontSize el - c) (computedFontSize el),
                 fits = (scrollWidth (host (reads1 + 1)) \<le> clientWidth el
                         \<and> scrollHeight (host (reads1 + 1)) \<le> clientHeight el),
                 attempts = Some atts \<rparr>,
              (if \<not> scrollWidth (host reads1) \<le> clientWidth el \<and> opt_preferWordWrap options
               then enableWrapping el4 else el4),
              reads1 + 2)"
      unfolding intelligentTextFit_unfold Let_def defs Leq by (simp add: orig_def)
    moreover have "reads0 \<le> 1" by (simp add: reads0_def)
    moreover have "whiteSpace (el2\<lparr> whiteSpace := ''nowrap'' \<rparr>) = ''nowrap''" by simp
    ultimately show P
      using Leq [unfolded L_def orig_def] by (intro shrunk) 
  qed
qed

lemmas eval_defs =
  intelligentTextFit_def plain_element_def no_options_def layouts_then_def option_defs Let_def
  fontReductionLoop.simps scrollWidth_def scrollHeight_def maxAttempts_def js_div_def
  enableWrapping_def applyFontSize_def

text \<open>
  The fitter never enlarges: with a step and a floor that are not negative the returned
  font size is at most the original one.
\<close>

lemma intelligentTextFit_size_le:
  assumes "0 \<le> opt_minFontSize options" and "0 \<le> opt_step options"
  shows "\<exists>r el' n. intelligentTextFit host (Some el) options = Some (r, el', n)
           \<and> fontSize r \<le> computedFontSize el"
proof (rule intelligentTextFit_cases [where host = host and el = el and options = options],
       goal_cases)
  case (1 el2)
  then show ?case by simp
next
  case (2 olh el3 reads0 el4 c atts reads1)
  let ?m = "max (opt_minFontSize options) (computedFontSize el * opt_maxReduction options)"
  have m0: "0 \<le> ?m" using assms(1) by simp
  have "fst (snd (fontReductionLoop host (clientWidth el) ?m (opt_step options)
              (opt_respectLineHeight options) olh (computedFontSize el) el3
              (computedFontSize el) 0 reads0)) \<le> computedFontSize el"
    by (rule fontReductionLoop_size_le [OF assms(2) m0])
  then have "c \<le> computedFontSize el" by (simp add: 2(1))
  then show ?case using 2(4) by simp
qed

text \<open>
  C1. The code at two inputs of the claim. First, a 32 pixel text with a minimum font size
  of 30 and the other options at their defaults, in a box that overflows at every read.
  The floor is 30, as the claim has it and as the code computes it. The loop shrinks four
  times by 2 percent: the last step starts above 30 and is not cut off at the floor, and
  the returned size lies between 29 and 30, below the floor. Second, a 100 pixel text with
  a maximal reduction of 0.3 and a step of 0.1, in a box that overflows at the first five
  reads. The floor of the claim is 70. The loop shrinks five times, which a floor of 70
  stops after four, and returns a size below 60: the floor the code tests is 100 times 0.3.
\<close>

theorem intelligentTextFit_below_floor:
  "(\<exists>r el' n.
      intelligentTextFit (layouts_then 0 (500, 20) (500, 20))
        (Some (plain_element 32 300 150 ''Runner''))
        (no_options\<lparr> minFontSize := Some 30 \<rparr>) = Some (r, el', n)
      \<and> attempts r = Some 4 \<and> 29 < fontSize r \<and> fontSize r < 30
      \<and> fontSize r < spec_floor 30 32 (7 / 10))
   \<and> spec_floor 30 32 (7 / 10) = 30
   \<and> max 30 (32 * (7 / 10)) = (30 :: real)
   \<and> (\<exists>r el' n.
      intelligentTextFit (layouts_then 5 (400, 20) (300, 20))
        (Some (plain_element 100 300 150 ''Runner''))
        (no_options\<lparr> maxReduction := Some (3 / 10), step := Some (1 / 10) \<rparr>) = Some (r, el', n)
      \<and> attempts r = Some 5 \<and> fontSize r < 60
      \<and> fontSize r < spec_floor 12 100 (3 / 10))
   \<and> spec_floor 12 100 (3 / 10) = 70"
  by (simp add: eval_defs spec_floor_def)

text \<open>
  What the fitter reports when the box still overflows after the loop (the read before the
  last one): the method is \<open>Hybrid\<close> exactly then, whatever \<^verbatim>\<open>preferWordWrap\<close> is, and
  wrapping is switched on again exactly when the method is \<open>Hybrid\<close> and
  \<^verbatim>\<open>preferWordWrap\<close> is set.
\<close>

lemma intelligentTextFit_method:
  "\<exists>r el' n. intelligentTextFit host (Some el) options = Some (r, el', n)
     \<and> (methodName r = WordWrap
        \<or> (methodName r = Hybrid) = (clientWidth el < scrollWidth (host (n - 2)))
          \<and> (methodName r = FontReduction) = (scrollWidth (host (n - 2)) \<le> clientWidth el)
          \<and> (whiteSpace el' = ''normal'') = (methodName r = Hybrid \<and> opt_preferWordWrap options)
          \<and> (whiteSpace el' = ''nowrap'')
              = (methodName r = FontReduction \<or> \<not> opt_preferWordWrap options))"
proof (rule intelligentTextFit_cases [where host = host and el = el and options = options],
       goal_cases)
  case (1 el2)
  then show ?case by simp
next
  case (2 olh el3 reads0 el4 c atts reads1)
  have "whiteSpace (fst (fontReductionLoop host (clientWidth el)
          (max (opt_minFontSize options) (computedFontSize el * opt_maxReduction options))
          (opt_step options) (opt_respectLineHeight options) olh (computedFontSize el) el3
          (computedFontSize el) 0 reads0)) = whiteSpace el3"
    by (rule fontReductionLoop_whiteSpace)
  then have "whiteSpace el4 = ''nowrap''" by (simp add: 2(1,2))
  then show ?case using 2(4) by (auto simp: enableWrapping_def)
qed

text \<open>
  C5. The code at an input of the claim's second case: \<^verbatim>\<open>preferWordWrap\<close> is false, and
  a 16 pixel text in a 100 pixel box is measured 500 pixels wide at every read. The loop
  shrinks 15 times, the box still overflows, wrapping stays off (\<^verbatim>\<open>nowrap\<close>), and the
  reported method is \<open>Hybrid\<close>, where the claim has \<open>FontReduction\<close>.
\<close>

theorem intelligentTextFit_shrink_only_overflow:
  "map_option (methodName \<circ> fst)
     (intelligentTextFit (layouts_then 0 (500, 20) (500, 20))
        (Some (plain_element 16 100 40 ''LONGRUNNERNAME''))
        (no_options\<lparr> preferWordWrap := Some False \<rparr>)) = Some Hybrid
   \<and> map_option (whiteSpace \<circ> fst \<circ> snd)
       (intelligentTextFit (layouts_then 0 (500, 20) (500, 20))
          (Some (plain_element 16 100 40 ''LONGRUNNERNAME''))
          (no_options\<lparr> preferWordWrap := Some False \<rparr>)) = Some ''nowrap''
   \<and> map_option (fits \<circ> fst)
       (intelligentTextFit (layouts_then 0 (500, 20) (500, 20))
          (Some (plain_element 16 100 40 ''LONGRUNNERNAME''))
          (no_options\<lparr> preferWordWrap := Some False \<rparr>)) = Some False
   \<and> map_option (attempts \<circ> fst)
       (intelligentTextFit (layouts_then 0 (500, 20) (500, 20))
          (Some (plain_element 16 100 40 ''LONGRUNNERNAME''))
          (no_options\<lparr> preferWordWrap := Some False \<rparr>)) = Some (Some 15)"
  by (simp add: eval_defs)

text \<open>
  C6, as the code has it. For a missing element the fitter returns \<^verbatim>\<open>null\<close>. For
  every element that is present, every options object and every sequence of layouts it
  returns a result. The loop has run at most 50 times, whatever the options say: the bound
  is a constant of the function, and an option \<^verbatim>\<open>maxIterations\<close> is not read, so the
  result is the same with and without it. At most four layouts are read besides those of
  the loop. The \<^verbatim>\<open>fits\<close> field is the comparison of the last layout read with the client
  box.
\<close>

theorem intelligentTextFit_terminates:
  "intelligentTextFit host None options = None
   \<and> (\<exists>r el' n. intelligentTextFit host (Some el) options = Some (r, el', n)
        \<and> (case attempts r of None \<Rightarrow> 0 | Some k \<Rightarrow> k) \<le> 50
        \<and> 0 < n \<and> n \<le> (case attempts r of None \<Rightarrow> 0 | Some k \<Rightarrow> k) + 4
        \<and> fits r = (scrollWidth (host (n - 1)) \<le> clientWidth el
                    \<and> scrollHeight (host (n - 1)) \<le> clientHeight el))
   \<and> intelligentTextFit host e (options\<lparr> maxIterations := limit \<rparr>)
       = intelligentTextFit host e options"
proof (intro conjI)
  show "intelligentTextFit host None options = None"
    by (simp add: intelligentTextFit_def)
  have unread:
    "opt_maxReduction (options\<lparr> maxIterations := limit \<rparr>) = opt_maxReduction options"
    "opt_minFontSize (options\<lparr> maxIterations := limit \<rparr>) = opt_minFontSize options"
    "opt_preferWordWrap (options\<lparr> maxIterations := limit \<rparr>) = opt_preferWordWrap options"
    "opt_respectLineHeight (options\<lparr> maxIterations := limit \<rparr>)
       = opt_respectLineHeight options"
    "opt_step (options\<lparr> maxIterations := limit \<rparr>) = opt_step options"
    by (simp_all add: option_defs)
  show "intelligentTextFit host e (options\<lparr> maxIterations := limit \<rparr>)
          = intelligentTextFit host e options"
    by (cases e) (simp_all only: intelligentTextFit_def unread)
  show "\<exists>r el' n. intelligentTextFit host (Some el) options = Some (r, el', n)
        \<and> (case attempts r of None \<Rightarrow> 0 | Some k \<Rightarrow> k) \<le> 50
        \<and> 0 < n \<and> n \<le> (case attempts r of None \<Rightarrow> 0 | Some k \<Rightarrow> k) + 4
        \<and> fits r = (scrollWidth (host (n - 1)) \<le> clientWidth el
                    \<and> scrollHeight (host (n - 1)) \<le> clientHeight el)"
  proof (rule intelligentTextFit_cases [where host = host and el = el and options = options],
         goal_cases)
    case (1 el2)
    then show ?case by simp
  next
    case (2 olh el3 reads0 el4 c atts reads1)
    let ?m = "max (opt_minFontSize options) (computedFontSize el * opt_maxReduction options)"
    let ?L = "fontReductionLoop host (clientWidth el) ?m (opt_step options)
                (opt_respectLineHeight options) olh (computedFontSize el) el3
                (computedFontSize el) 0 reads0"
    have "fst (snd (snd ?L)) \<le> max 0 maxAttempts"
      using fontReductionLoop_attempts by blast
    then have at: "atts \<le> 50" by (simp add: 2(1) maxAttempts_def)
    have "snd (snd (snd ?L)) = reads0 + (fst (snd (snd ?L)) - 0) + 1"
      by (rule fontReductionLoop_reads)
    then have rd: "reads1 = reads0 + atts + 1" by (simp add: 2(1))
    show ?case using at rd 2(3,4) by simp
  qed
qed

text \<open>
  The theorem at a host that reports an overflow at every read, with a floor the loop
  cannot reach in 50 steps.
\<close>

theorem intelligentTextFit_terminates_witness:
  "\<exists>r el' n.
      intelligentTextFit (layouts_then 0 (500, 20) (500, 20))
        (Some (plain_element 100 100 40 ''LONGRUNNERNAME''))
        (no_options\<lparr> maxReduction := Some (1 / 100), minFontSize := Some 1 \<rparr>) = Some (r, el', n)
      \<and> (case attempts r of None \<Rightarrow> 0 | Some k \<Rightarrow> k) \<le> 50
      \<and> 0 < n"
  using intelligentTextFit_terminates
    [of "layouts_then 0 (500, 20) (500, 20)"
        "no_options\<lparr> maxReduction := Some (1 / 100), minFontSize := Some 1 \<rparr>"
        "plain_element 100 100 40 ''LONGRUNNERNAME''"]
  by blast

text \<open>
  C6 as the specification states it fails in two ways. A call with \<^verbatim>\<open>maxIterations\<close> set
  to 5, for a 16 pixel text in a box that overflows at every read, runs the loop 15 times.
  And a call with no element returns \<^verbatim>\<open>null\<close>, not a result object.
\<close>

theorem intelligentTextFit_maxIterations_counterexample:
  "map_option (attempts \<circ> fst)
     (intelligentTextFit (layouts_then 0 (500, 20) (500, 20))
        (Some (plain_element 16 100 40 ''LONGRUNNERNAME''))
        (no_options\<lparr> preferWordWrap := Some False, maxIterations := Some 5 \<rparr>)) = Some (Some 15)
   \<and> (5 :: nat) < 15
   \<and> intelligentTextFit (layouts_then 0 (500, 20) (500, 20)) None
        (no_options\<lparr> maxIterations := Some 5 \<rparr>) = None"
  by (simp add: eval_defs)

text \<open>At that input the bound is reached: 50 attempts, and the result says it does not fit.\<close>

lemma intelligentTextFit_bound_reached:
  "map_option (attempts \<circ> fst)
     (intelligentTextFit (layouts_then 0 (500, 20) (500, 20))
        (Some (plain_element 100 100 40 ''LONGRUNNERNAME''))
        (no_options\<lparr> maxReduction := Some (1 / 100), minFontSize := Some 1 \<rparr>)) = Some (Some 50)
   \<and> map_option (fits \<circ> fst)
       (intelligentTextFit (layouts_then 0 (500, 20) (500, 20))
          (Some (plain_element 100 100 40 ''LONGRUNNERNAME''))
          (no_options\<lparr> maxReduction := Some (1 / 100), minFontSize := Some 1 \<rparr>)) = Some False"
  by (simp add: eval_defs)

text \<open>A missing element: the fitter returns \<^verbatim>\<open>null\<close>.\<close>

lemma intelligentTextFit_null: "intelligentTextFit host None options = None"
  by (simp add: intelligentTextFit_def)

section \<open>Properties of the scale properties\<close>

lemma upt_1_11: "[1 ..< 11] = [1, 2, 3, 4, 5, 6, 7, 8, 9, 10 :: nat]"
  by (simp add: upt_rec)

lemma decimal_string_1_10:
  "decimal_string 1 = ''1''" "decimal_string 2 = ''2''" "decimal_string 3 = ''3''"
  "decimal_string 4 = ''4''" "decimal_string 5 = ''5''" "decimal_string 6 = ''6''"
  "decimal_string 7 = ''7''" "decimal_string 8 = ''8''" "decimal_string 9 = ''9''"
  "decimal_string 10 = ''10''"
  by (simp_all add: decimal_string.simps)

text \<open>The ten assignments of the spacing loop, key by key.\<close>

lemma spacing_list:
  "map (\<lambda>i. (''--spacing-'' @ decimal_string i, f i)) [1 ..< 11] =
     [(''--spacing-1'', f 1), (''--spacing-2'', f 2), (''--spacing-3'', f 3),
      (''--spacing-4'', f 4), (''--spacing-5'', f 5), (''--spacing-6'', f 6),
      (''--spacing-7'', f 7), (''--spacing-8'', f 8), (''--spacing-9'', f 9),
      (''--spacing-10'', f 10)]"
  unfolding upt_1_11 list.map decimal_string_1_10 by simp

lemma generateScaleProperties_spacing_values:
  assumes "dflt True (enableSpacingScale options)"
  shows
    "map_of (generateScaleProperties dims options) ''--spacing-1'' =
       Some (pixelsToViewport (8 * 1) ''vmin'' None)"
    "map_of (generateScaleProperties dims options) ''--spacing-2'' =
       Some (pixelsToViewport (8 * 2) ''vmin'' None)"
    "map_of (generateScaleProperties dims options) ''--spacing-3'' =
       Some (pixelsToViewport (8 * 3) ''vmin'' None)"
    "map_of (generateScaleProperties dims options) ''--spacing-4'' =
       Some (pixelsToViewport (8 * 4) ''vmin'' None)"
    "map_of (generateScaleProperties dims options) ''--spacing-5'' =
       Some (pixelsToViewport (8 * 5) ''vmin'' None)"
    "map_of (generateScaleProperties dims options) ''--spacing-6'' =
       Some (pixelsToViewport (8 * 6) ''vmin'' None)"
    "map_of (generateScaleProperties dims options) ''--spacing-7'' =
       Some (pixelsToViewport (8 * 7) ''vmin'' None)"
    "map_of (generateScaleProperties dims options) ''--spacing-8'' =
       Some (pixelsToViewport (8 * 8) ''vmin'' None)"
    "map_of (generateScaleProperties dims options) ''--spacing-9'' =
       Some (pixelsToViewport (8 * 9) ''vmin'' None)"
    "map_of (generateScaleProperties dims options) ''--spacing-10'' =
       Some (pixelsToViewport (8 * 10) ''vmin'' None)"
  using assms
  unfolding generateScaleProperties_def Let_def spacing_list TYPOGRAPHY_SCALE_def
  by simp_all

text \<open>
  C8, as the code has it. Unless the spacing scale is switched off, for every \<open>i\<close> from 1 to
  10 the property \<^verbatim>\<open>--spacing-i\<close> is the clamp with the floor
  \<open>max (baseSpacing * i * 0.5) 8\<close>, the preferred value \<open>baseSpacing * i / 1920 * 100\<close> to
  two decimals in the unit \<^verbatim>\<open>vmin\<close>, and the ceiling \<open>baseSpacing * i * 2\<close>, where
  \<open>baseSpacing\<close> is 8.
\<close>

theorem generateScaleProperties_spacing_step:
  assumes "1 \<le> i" and "i \<le> 10" and "dflt True (enableSpacingScale options)"
  shows "map_of (generateScaleProperties dims options) (''--spacing-'' @ decimal_string i) =
           Some (Clamp (max (baseSpacing * real i * (5 / 10)) 8)
                       (toFixed2 (baseSpacing * real i / BASE_width * 100))
                       ''vmin''
                       (baseSpacing * real i * 2))"
proof -
  from assms(1,2) have "i \<in> set [1 ..< 11]" by simp
  then have "i \<in> {1, 2, 3, 4, 5, 6, 7, 8, 9, 10}"
    unfolding upt_1_11 by simp
  then show ?thesis
    using generateScaleProperties_spacing_values [OF assms(3), of dims]
    by (elim insertE emptyE)
      (simp_all add: decimal_string_1_10 pixelsToViewport_def BASE_width_def baseSpacing_def
         Let_def del: One_nat_def)
qed

text \<open>The spacing theorem at step 4 of the default options: 16 to 64 pixels around 1.67vmin.\<close>

theorem generateScaleProperties_spacing_step_witness:
  "map_of (generateScaleProperties (getOptimalDimensions 1920 1080 None) no_scaling_options)
     ''--spacing-4'' = Some (Clamp 16 (167 / 100) ''vmin'' 64)"
  using generateScaleProperties_spacing_step
    [of 4 no_scaling_options "getOptimalDimensions 1920 1080 None"]
  by (simp add: no_scaling_options_def dflt_def decimal_string_1_10 baseSpacing_def
        BASE_width_def toFixed2_def)

text \<open>
  C8 as the specification states it fails at the first step already: the property is
  \<^verbatim>\<open>clamp(8px, 0.42vmin, 16px)\<close>, while the stated floor is 4 and the stated ceiling 12.
\<close>

theorem generateScaleProperties_spacing_counterexample:
  "map_of (generateScaleProperties (getOptimalDimensions 1920 1080 None) no_scaling_options)
     ''--spacing-1'' = Some (Clamp 8 (21 / 50) ''vmin'' 16)
   \<and> spec_spacing_floor 1 = 4
   \<and> spec_spacing_ceiling 1 = 12"
  using generateScaleProperties_spacing_values(1)
    [of no_scaling_options "getOptimalDimensions 1920 1080 None"]
  by (simp add: no_scaling_options_def dflt_def pixelsToViewport_def BASE_width_def Let_def
        toFixed2_def spec_spacing_floor_def spec_spacing_ceiling_def baseSpacing_def)

section \<open>Properties of the change observer\<close>

subsection \<open>Timeouts and listeners\<close>

text \<open>
  In a state where every pending timeout is the one the closure variable names, scheduling
  replaces it and the cleanup removes it.
\<close>

lemma scheduleResize_owned:
  assumes "owns_timers w"
  shows "scheduleResize obs x w =
           w\<lparr> timers := [(nextTimerId w, clock w + (debounce_of obs + x))],
              nextTimerId := nextTimerId w + 1,
              resizeTimeout := Some (nextTimerId w) \<rparr>"
proof -
  have "filter (\<lambda>entry. fst entry \<noteq> i) (timers w) = []" if "resizeTimeout w = Some i" for i
    using assms that by (auto simp: owns_timers_def list_all_iff filter_empty_conv)
  moreover have "timers w = []" if "resizeTimeout w = None"
    using assms that by (cases "timers w") (auto simp: owns_timers_def)
  ultimately show ?thesis
    by (cases "resizeTimeout w")
       (simp_all add: scheduleResize_def clearTimeout_def setTimeout_def debounce_of_def Let_def)
qed

lemma cleanup_owned:
  assumes "owns_timers w"
  shows "cleanup w = w\<lparr> timers := [], resizeListener := False, orientationListener := False \<rparr>"
proof -
  have "filter (\<lambda>entry. fst entry \<noteq> i) (timers w) = []" if "resizeTimeout w = Some i" for i
    using assms that by (auto simp: owns_timers_def list_all_iff filter_empty_conv)
  moreover have "timers w = []" if "resizeTimeout w = None"
    using assms that by (cases "timers w") (auto simp: owns_timers_def)
  ultimately show ?thesis
    by (cases "resizeTimeout w") (simp_all add: cleanup_def clearTimeout_def)
qed

lemma timerCallback_fields:
  "timers (timerCallback obs w) = timers w"
  "resizeTimeout (timerCallback obs w) = resizeTimeout w"
  "resizeListener (timerCallback obs w) = resizeListener w"
  "orientationListener (timerCallback obs w) = orientationListener w"
  "innerWidth (timerCallback obs w) = innerWidth w"
  "innerHeight (timerCallback obs w) = innerHeight w"
  "clock (timerCallback obs w) = clock w"
  "nextTimerId (timerCallback obs w) = nextTimerId w"
  by (simp_all add: timerCallback_def Let_def)

lemma foldl_fire_fields:
  "timers (foldl (fire obs) w due) = timers w"
  "resizeTimeout (foldl (fire obs) w due) = resizeTimeout w"
  "resizeListener (foldl (fire obs) w due) = resizeListener w"
  "orientationListener (foldl (fire obs) w due) = orientationListener w"
  "innerWidth (foldl (fire obs) w due) = innerWidth w"
  "innerHeight (foldl (fire obs) w due) = innerHeight w"
  by (induction due arbitrary: w; simp add: fire_def timerCallback_fields)+

lemma advance_fields:
  "timers (advance obs t w) = filter (\<lambda>entry. t < snd entry) (timers w)"
  "resizeTimeout (advance obs t w) = resizeTimeout w"
  "resizeListener (advance obs t w) = resizeListener w"
  "orientationListener (advance obs t w) = orientationListener w"
  "innerWidth (advance obs t w) = innerWidth w"
  "innerHeight (advance obs t w) = innerHeight w"
  by (simp_all add: advance_def Let_def foldl_fire_fields)

lemma advance_owned: "owns_timers w \<Longrightarrow> owns_timers (advance obs t w)"
  by (simp add: owns_timers_def advance_fields list_all_iff)

lemma advance_not_due:
  assumes "\<forall>entry \<in> set (timers w). t < snd entry"
  shows "advance obs t w = w\<lparr> clock := max (clock w) t \<rparr>"
proof -
  have "filter (\<lambda>entry. snd entry \<le> t) (timers w) = []"
    using assms by (auto simp: filter_empty_conv)
  moreover have "filter (\<lambda>entry. t < snd entry) (timers w) = timers w"
    using assms by (auto simp: filter_id_conv)
  ultimately show ?thesis by (simp add: advance_def Let_def)
qed

lemma dispatch_owned: "owns_timers w \<Longrightarrow> owns_timers (dispatch obs e w)"
proof (cases e)
  case (Resize x y)
  assume o: "owns_timers w"
  then have "owns_timers (w\<lparr> innerWidth := x, innerHeight := y \<rparr>)" by (simp add: owns_timers_def)
  then show ?thesis using o Resize
    by (simp add: Let_def handleResize_def scheduleResize_owned) (simp add: owns_timers_def)
next
  case (OrientationChange x y)
  assume o: "owns_timers w"
  then have "owns_timers (w\<lparr> innerWidth := x, innerHeight := y \<rparr>)" by (simp add: owns_timers_def)
  then show ?thesis using o OrientationChange
    by (simp add: Let_def handleOrientationChange_def scheduleResize_owned) (simp add: owns_timers_def)
next
  case Release
  assume "owns_timers w"
  then show ?thesis using Release by (simp add: cleanup_owned) (simp add: owns_timers_def)
qed

lemma run_owned: "owns_timers w \<Longrightarrow> owns_timers (run obs es w)"
  by (induction es arbitrary: w) (auto simp: advance_owned dispatch_owned)

lemma run_append: "run obs (es @ es') w = run obs es' (run obs es w)"
  by (induction es arbitrary: w) auto

lemma create_owned: "owns_timers (createResponsiveObserver obs (initial_world x y t0))"
proof -
  have "owns_timers ((initial_world x y t0)\<lparr> resizeListener := True, orientationListener := True \<rparr>)"
    by (simp add: owns_timers_def initial_world_def)
  then show ?thesis
    by (simp add: createResponsiveObserver_def handleResize_def scheduleResize_owned)
       (simp add: owns_timers_def)
qed

lemma released_advance:
  assumes "released w"
  shows "released (advance obs t w)" and "updates (advance obs t w) = updates w"
  using assms by (simp_all add: released_def advance_fields) (simp add: advance_def Let_def)

lemma released_dispatch:
  assumes "released w"
  shows "released (dispatch obs e w)" and "updates (dispatch obs e w) = updates w"
  using assms
  by (cases e; simp add: released_def Let_def cleanup_def clearTimeout_def split: option.splits)+

lemma released_run:
  assumes "released w"
  shows "released (run obs es w) \<and> updates (run obs es w) = updates w"
  using assms
proof (induction es arbitrary: w)
  case Nil
  then show ?case by simp
next
  case (Cons a es)
  obtain t e where a: "a = (t, e)" by (cases a)
  have r: "released (dispatch obs e (advance obs t w))"
    using Cons.prems by (simp add: released_advance released_dispatch)
  have u: "updates (dispatch obs e (advance obs t w)) = updates w"
    using Cons.prems by (simp add: released_advance released_dispatch)
  from Cons.IH [OF r] u show ?case by (simp add: a)
qed

lemma cleanup_released: "owns_timers w \<Longrightarrow> released (cleanup w)"
  by (simp add: cleanup_owned released_def)

lemma cleanup_updates: "updates (cleanup w) = updates w"
  by (simp add: cleanup_def clearTimeout_def split: option.splits)

text \<open>
  Once the function returned by the observer has been called, at whatever moment, the
  callback is not called again, whatever happens afterwards.
\<close>

lemma cleanup_silences:
  "updates (advance obs T (run obs later (cleanup (run obs es (createResponsiveObserver obs (initial_world x y t0))))))
    = updates (run obs es (createResponsiveObserver obs (initial_world x y t0)))"
proof -
  let ?w = "run obs es (createResponsiveObserver obs (initial_world x y t0))"
  have "owns_timers ?w" by (simp add: run_owned create_owned)
  then have rel: "released (cleanup ?w)" by (rule cleanup_released)
  from released_run [OF rel, of obs later]
  have "released (run obs later (cleanup ?w))" "updates (run obs later (cleanup ?w)) = updates ?w"
    by (simp_all add: cleanup_updates)
  then show ?thesis by (simp add: released_advance)
qed

subsection \<open>A burst of signals\<close>

text \<open>
  A signal that arrives while the timeout is pending replaces the timeout by one that is
  due a debounce time later (and 100 ms more after an orientation change); the callback is
  not called.
\<close>

lemma pending_owned: "pending_at w due \<Longrightarrow> owns_timers w"
  by (auto simp: pending_at_def owns_timers_def split: option.splits)

lemma pending_signal:
  assumes p: "pending_at w due" and t: "t < due" and e: "e \<noteq> Release"
  shows "pending_at (dispatch obs e (advance obs t w))
           (max (clock w) t + (debounce_of obs + (case e of OrientationChange x y \<Rightarrow> 100 | _ \<Rightarrow> 0)))"
    and "updates (dispatch obs e (advance obs t w)) = updates w"
    and "clock (dispatch obs e (advance obs t w)) = max (clock w) t"
    and "(innerWidth (dispatch obs e (advance obs t w)), innerHeight (dispatch obs e (advance obs t w)))
           = final_viewport (innerWidth w, innerHeight w) [(t, e)]"
proof -
  have nd: "\<forall>entry \<in> set (timers w). t < snd entry"
    using p t by (auto simp: pending_at_def split: option.splits)
  have adv: "advance obs t w = w\<lparr> clock := max (clock w) t \<rparr>"
    by (rule advance_not_due [OF nd])
  have own: "owns_timers (w\<lparr> clock := max (clock w) t, innerWidth := x, innerHeight := y \<rparr>)" for x y
    using pending_owned [OF p] by (simp add: owns_timers_def)
  show "pending_at (dispatch obs e (advance obs t w))
           (max (clock w) t + (debounce_of obs + (case e of OrientationChange x y \<Rightarrow> 100 | _ \<Rightarrow> 0)))"
    using p e own
    by (cases e)
       (simp_all add: adv Let_def pending_at_def handleResize_def handleOrientationChange_def
          scheduleResize_owned)
  show "updates (dispatch obs e (advance obs t w)) = updates w"
    using p e own
    by (cases e)
       (simp_all add: adv Let_def pending_at_def handleResize_def handleOrientationChange_def
          scheduleResize_owned)
  show "clock (dispatch obs e (advance obs t w)) = max (clock w) t"
    using p e own
    by (cases e)
       (simp_all add: adv Let_def pending_at_def handleResize_def handleOrientationChange_def
          scheduleResize_owned)
  show "(innerWidth (dispatch obs e (advance obs t w)), innerHeight (dispatch obs e (advance obs t w)))
           = final_viewport (innerWidth w, innerHeight w) [(t, e)]"
    using p e own
    by (cases e)
       (simp_all add: adv Let_def pending_at_def handleResize_def handleOrientationChange_def
          scheduleResize_owned)
qed

lemma final_viewport_Cons:
  "e \<noteq> Release \<Longrightarrow> final_viewport v ((t, e) # es) = final_viewport (final_viewport v [(t, e)]) es"
  by (cases e) auto

lemma final_due_Cons:
  "e \<noteq> Release \<Longrightarrow> final_due d due ((t, e) # es)
     = final_due d (t + (d + (case e of OrientationChange x y \<Rightarrow> 100 | _ \<Rightarrow> 0))) es"
  by (cases e) (auto simp: add.assoc)

lemma burst_run:
  assumes "pending_at w due" and "clock w + debounce_of obs \<le> due"
    and "burst (debounce_of obs) (clock w) es"
  shows "pending_at (run obs es w) (final_due (debounce_of obs) due es)
         \<and> clock (run obs es w) + debounce_of obs \<le> final_due (debounce_of obs) due es
         \<and> updates (run obs es w) = updates w
         \<and> (innerWidth (run obs es w), innerHeight (run obs es w))
             = final_viewport (innerWidth w, innerHeight w) es"
  using assms
proof (induction es arbitrary: w due)
  case Nil
  then show ?case by simp
next
  case (Cons a es)
  obtain t e where a: "a = (t, e)" by (cases a)
  from Cons.prems(3) have e: "e \<noteq> Release" and t0: "clock w \<le> t"
    and tw: "t < clock w + debounce_of obs" and rest: "burst (debounce_of obs) t es"
    by (simp_all add: a)
  from tw Cons.prems(2) have td: "t < due" by simp
  let ?w = "dispatch obs e (advance obs t w)"
  let ?due = "t + (debounce_of obs + (case e of OrientationChange x y \<Rightarrow> 100 | _ \<Rightarrow> 0))"
  have mx: "max (clock w) t = t" using t0 by simp
  note ps = pending_signal [OF Cons.prems(1) td e, of obs, unfolded mx]
  have c: "clock ?w + debounce_of obs \<le> ?due" using ps(3) by simp
  have b: "burst (debounce_of obs) (clock ?w) es" using rest ps(3) by simp
  have fv: "final_viewport (innerWidth w, innerHeight w) ((t, e) # es)
             = final_viewport (innerWidth ?w, innerHeight ?w) es"
    unfolding ps(4) by (rule final_viewport_Cons [OF e])
  have fd: "final_due (debounce_of obs) due ((t, e) # es) = final_due (debounce_of obs) ?due es"
    by (rule final_due_Cons [OF e])
  from Cons.IH [OF ps(1) c b] ps(2)
  show ?case
    by (simp add: a fv fd)
qed

lemma create_pending:
  "pending_at (createResponsiveObserver obs (initial_world x y t0)) (t0 + debounce_of obs)"
  "updates (createResponsiveObserver obs (initial_world x y t0)) = []"
  "clock (createResponsiveObserver obs (initial_world x y t0)) = t0"
  "innerWidth (createResponsiveObserver obs (initial_world x y t0)) = x"
  "innerHeight (createResponsiveObserver obs (initial_world x y t0)) = y"
proof -
  have "owns_timers ((initial_world x y t0)\<lparr> resizeListener := True, orientationListener := True \<rparr>)"
    by (simp add: owns_timers_def initial_world_def)
  then have eq: "createResponsiveObserver obs (initial_world x y t0) =
      (initial_world x y t0)\<lparr> resizeListener := True, orientationListener := True,
         timers := [(1, t0 + debounce_of obs)], nextTimerId := 2, resizeTimeout := Some 1 \<rparr>"
    by (simp add: createResponsiveObserver_def handleResize_def scheduleResize_owned)
       (simp add: initial_world_def)
  show "pending_at (createResponsiveObserver obs (initial_world x y t0)) (t0 + debounce_of obs)"
    "updates (createResponsiveObserver obs (initial_world x y t0)) = []"
    "clock (createResponsiveObserver obs (initial_world x y t0)) = t0"
    "innerWidth (createResponsiveObserver obs (initial_world x y t0)) = x"
    "innerHeight (createResponsiveObserver obs (initial_world x y t0)) = y"
    unfolding eq by (simp_all add: pending_at_def initial_world_def)
qed

lemma pending_advance:
  assumes "pending_at w due" and "obs_callback obs"
  shows "updates (advance obs T w) =
           (if T < due then updates w
            else updates w @ [(max (clock w) due,
                   applyResponsiveScaling (obs_container obs) (obs_options obs)
                     (innerWidth w, innerHeight w))])"
    and "T < due \<Longrightarrow> pending_at (advance obs T w) due"
  using assms
  by (auto simp: pending_at_def advance_def Let_def fire_def timerCallback_def split: option.splits)

text \<open>
  A burst that starts later. The observer has seen any signals before; a signal arrives at
  time \<open>t\<close>, and more follow, each less than the debounce time after the one before. The
  calls made up to time \<open>t\<close> stay as they are, and the burst adds exactly one call, when
  the timeout of its last signal is due.
\<close>

lemma attached_signal:
  assumes o: "owns_timers w" and l: "resizeListener w" "orientationListener w"
    and e: "e \<noteq> Release"
  shows "pending_at (dispatch obs e w)
           (clock w + (debounce_of obs + (case e of OrientationChange x y \<Rightarrow> 100 | _ \<Rightarrow> 0)))"
    and "updates (dispatch obs e w) = updates w"
    and "clock (dispatch obs e w) = clock w"
    and "(innerWidth (dispatch obs e w), innerHeight (dispatch obs e w))
           = final_viewport (innerWidth w, innerHeight w) [(t, e)]"
proof -
  have own: "owns_timers (w\<lparr> innerWidth := x, innerHeight := y \<rparr>)" for x y
    using o by (simp add: owns_timers_def)
  show "pending_at (dispatch obs e w)
           (clock w + (debounce_of obs + (case e of OrientationChange x y \<Rightarrow> 100 | _ \<Rightarrow> 0)))"
    using l e own
    by (cases e)
       (simp_all add: Let_def pending_at_def handleResize_def handleOrientationChange_def
          scheduleResize_owned)
  show "updates (dispatch obs e w) = updates w"
    using l e own
    by (cases e)
       (simp_all add: Let_def handleResize_def handleOrientationChange_def scheduleResize_owned)
  show "clock (dispatch obs e w) = clock w"
    using l e own
    by (cases e)
       (simp_all add: Let_def handleResize_def handleOrientationChange_def scheduleResize_owned)
  show "(innerWidth (dispatch obs e w), innerHeight (dispatch obs e w))
           = final_viewport (innerWidth w, innerHeight w) [(t, e)]"
    using l e own
    by (cases e)
       (simp_all add: Let_def handleResize_def handleOrientationChange_def scheduleResize_owned)
qed

lemma signals_attached:
  assumes "owns_timers w" and "resizeListener w" and "orientationListener w"
    and "list_all (\<lambda>ev. snd ev \<noteq> Release) es"
  shows "owns_timers (run obs es w) \<and> resizeListener (run obs es w)
         \<and> orientationListener (run obs es w)"
  using assms
proof (induction es arbitrary: w)
  case Nil
  then show ?case by simp
next
  case (Cons a es)
  obtain t e where a: "a = (t, e)" by (cases a)
  let ?a = "advance obs t w"
  from Cons.prems have e: "e \<noteq> Release" and rest: "list_all (\<lambda>ev. snd ev \<noteq> Release) es"
    by (simp_all add: a)
  have oa: "owns_timers ?a" by (rule advance_owned [OF Cons.prems(1)])
  have la: "resizeListener ?a" "orientationListener ?a"
    using Cons.prems(2,3) by (simp_all add: advance_fields)
  have p: "pending_at (dispatch obs e ?a)
      (clock ?a + (debounce_of obs + (case e of OrientationChange x y \<Rightarrow> 100 | _ \<Rightarrow> 0)))"
    by (rule attached_signal(1) [OF oa la e])
  then have "owns_timers (dispatch obs e ?a)" "resizeListener (dispatch obs e ?a)"
    "orientationListener (dispatch obs e ?a)"
    by (simp_all add: pending_owned) (simp_all add: pending_at_def)
  from Cons.IH [OF this rest] show ?case by (simp add: a)
qed

lemma clock_advance: "clock (advance obs t w) = max (clock (foldl (fire obs)
    (w\<lparr> timers := filter (\<lambda>entry. t < snd entry) (timers w) \<rparr>)
    (sort_key snd (filter (\<lambda>entry. snd entry \<le> t) (timers w))))) t"
  by (simp add: advance_def Let_def)

lemma foldl_fire_clock:
  "\<forall>entry \<in> set due. snd entry \<le> t \<Longrightarrow> clock w \<le> t \<Longrightarrow> clock (foldl (fire obs) w due) \<le> t"
  by (induction due arbitrary: w) (auto simp: fire_def timerCallback_fields)

lemma advance_clock: "clock w \<le> t \<Longrightarrow> clock (advance obs t w) = t"
proof -
  assume c: "clock w \<le> t"
  have "clock (foldl (fire obs) (w\<lparr> timers := filter (\<lambda>entry. t < snd entry) (timers w) \<rparr>)
          (sort_key snd (filter (\<lambda>entry. snd entry \<le> t) (timers w)))) \<le> t"
    by (rule foldl_fire_clock) (use c in auto)
  then show ?thesis by (simp add: clock_advance)
qed

lemma later_burst:
  assumes cb: "obs_callback obs"
    and o: "owns_timers w" and l: "resizeListener w" "orientationListener w"
    and e: "e \<noteq> Release" and c: "clock w \<le> t" and b: "burst (debounce_of obs) t es"
  shows "updates (advance obs T (run obs ((t, e) # es) w))
           = updates (advance obs t w)
             @ (if T < final_due (debounce_of obs) 0 ((t, e) # es) then []
                else [(final_due (debounce_of obs) 0 ((t, e) # es),
                       applyResponsiveScaling (obs_container obs) (obs_options obs)
                         (final_viewport (innerWidth w, innerHeight w) ((t, e) # es)))])"
proof -
  let ?a = "advance obs t w"
  let ?d = "dispatch obs e ?a"
  let ?due1 = "t + (debounce_of obs + (case e of OrientationChange x y \<Rightarrow> 100 | _ \<Rightarrow> 0))"
  let ?due = "final_due (debounce_of obs) ?due1 es"
  have oa: "owns_timers ?a" by (rule advance_owned [OF o])
  have la: "resizeListener ?a" "orientationListener ?a" using l by (simp_all add: advance_fields)
  have ca: "clock ?a = t" by (rule advance_clock [OF c])
  have pd: "pending_at ?d ?due1"
    using attached_signal(1) [OF oa la e, of obs] by (simp add: ca)
  have ud: "updates ?d = updates ?a" by (rule attached_signal(2) [OF oa la e])
  have cd: "clock ?d = t" using attached_signal(3) [OF oa la e, of obs] by (simp add: ca)
  have va: "(innerWidth ?d, innerHeight ?d) = final_viewport (innerWidth w, innerHeight w) [(t, e)]"
    using attached_signal(4) [OF oa la e, of obs t] by (simp add: advance_fields)
  have c2: "clock ?d + debounce_of obs \<le> ?due1" using cd by simp
  have b2: "burst (debounce_of obs) (clock ?d) es" using b cd by simp
  from burst_run [OF pd c2 b2]
  have p: "pending_at (run obs es ?d) ?due" and ck: "clock (run obs es ?d) + debounce_of obs \<le> ?due"
    and u: "updates (run obs es ?d) = updates ?a"
    and v: "(innerWidth (run obs es ?d), innerHeight (run obs es ?d))
              = final_viewport (innerWidth ?d, innerHeight ?d) es"
    by (simp_all add: ud)
  have mx: "max (clock (run obs es ?d)) ?due = ?due" using ck by simp
  have fd: "final_due (debounce_of obs) 0 ((t, e) # es) = ?due" by (rule final_due_Cons [OF e])
  have fv: "final_viewport (innerWidth w, innerHeight w) ((t, e) # es)
              = final_viewport (innerWidth ?d, innerHeight ?d) es"
    unfolding va by (rule final_viewport_Cons [OF e])
  show ?thesis
    using pending_advance(1) [OF p cb, of T] by (simp add: u v mx fd fv)
qed

lemma signals_viewport:
  assumes "list_all (\<lambda>ev. snd ev \<noteq> Release) es"
  shows "(innerWidth (run obs es w), innerHeight (run obs es w))
           = final_viewport (innerWidth w, innerHeight w) es"
  using assms
proof (induction es arbitrary: w)
  case Nil
  then show ?case by simp
next
  case (Cons a es)
  obtain t e where a: "a = (t, e)" by (cases a)
  from Cons.prems have e: "e \<noteq> Release" and rest: "list_all (\<lambda>ev. snd ev \<noteq> Release) es"
    by (simp_all add: a)
  have "(innerWidth (dispatch obs e (advance obs t w)), innerHeight (dispatch obs e (advance obs t w)))
          = final_viewport (innerWidth w, innerHeight w) [(t, e)]"
    using e
    by (cases e)
       (simp_all add: Let_def advance_fields handleResize_def handleOrientationChange_def
          scheduleResize_def clearTimeout_def setTimeout_def split: option.splits)
  with Cons.IH [OF rest, of "dispatch obs e (advance obs t w)"] show ?case
    by (simp add: a final_viewport_Cons [OF e, of _ t es])
qed

lemmas observer_eval =
  observer_with_def no_scaling_options_def initial_world_def createResponsiveObserver_def
  handleResize_def handleOrientationChange_def scheduleResize_def clearTimeout_def setTimeout_def
  cleanup_def advance_def fire_def timerCallback_def applyResponsiveScaling_def dflt_def Let_def

text \<open>
  C7, as the code has it. An observer with a callback is created at time \<open>t0\<close> on a window
  of any size, and a burst of resize and orientation signals follows, each less than the
  debounce time after the one before. Then up to any time \<open>T\<close> the callback has been called
  not at all before the timeout of the last signal is due, and exactly once from then on,
  at that due time. Its argument is the scaling computed at that moment: from the
  viewport width and height of the options where they give one, and from the size the
  window has after the last signal otherwise. If the function returned by the observer is
  called before that due time, the callback is never called, whatever signals follow. And a
  burst that starts at any later time \<open>t\<close>, after any signals before it, adds exactly one
  call to those made up to \<open>t\<close>, again when the timeout of its last signal is due.
\<close>

theorem createResponsiveObserver_debounce:
  assumes "obs_callback obs" and "burst (debounce_of obs) t0 es"
  shows "updates (advance obs T (run obs es (createResponsiveObserver obs (initial_world x y t0))))
           = (if T < final_due (debounce_of obs) (t0 + debounce_of obs) es then []
              else [(final_due (debounce_of obs) (t0 + debounce_of obs) es,
                     applyResponsiveScaling (obs_container obs) (obs_options obs)
                       (final_viewport (x, y) es))])
         \<and> (obs_container obs \<longrightarrow>
              map_option res_dimensions
                (applyResponsiveScaling (obs_container obs) (obs_options obs)
                   (final_viewport (x, y) es))
              = Some (getOptimalDimensions
                        (dflt (fst (final_viewport (x, y) es)) (viewportWidth (obs_options obs)))
                        (dflt (snd (final_viewport (x, y) es)) (viewportHeight (obs_options obs)))
                        (forceOrientation (obs_options obs))))
         \<and> (tr < final_due (debounce_of obs) (t0 + debounce_of obs) es \<longrightarrow>
              updates (advance obs T
                (run obs (es @ (tr, Release) # later)
                   (createResponsiveObserver obs (initial_world x y t0)))) = [])
         \<and> (list_all (\<lambda>ev. snd ev \<noteq> Release) hist \<and> e \<noteq> Release
              \<and> clock (run obs hist (createResponsiveObserver obs (initial_world x y t0))) \<le> t
              \<and> burst (debounce_of obs) t rest \<longrightarrow>
              updates (advance obs T
                (run obs (hist @ (t, e) # rest)
                   (createResponsiveObserver obs (initial_world x y t0))))
              = updates (advance obs t
                  (run obs hist (createResponsiveObserver obs (initial_world x y t0))))
                @ (if T < final_due (debounce_of obs) 0 ((t, e) # rest) then []
                   else [(final_due (debounce_of obs) 0 ((t, e) # rest),
                          applyResponsiveScaling (obs_container obs) (obs_options obs)
                            (final_viewport (final_viewport (x, y) hist) ((t, e) # rest)))]))"
proof -
  let ?init = "createResponsiveObserver obs (initial_world x y t0)"
  let ?due = "final_due (debounce_of obs) (t0 + debounce_of obs) es"
  let ?w = "run obs es ?init"
  have b: "burst (debounce_of obs) (clock ?init) es" using assms(2) by (simp add: create_pending)
  have c: "clock ?init + debounce_of obs \<le> t0 + debounce_of obs" by (simp add: create_pending)
  from burst_run [OF create_pending(1) c b]
  have p: "pending_at ?w ?due" and ck: "clock ?w + debounce_of obs \<le> ?due"
    and u: "updates ?w = []"
    and v: "(innerWidth ?w, innerHeight ?w) = final_viewport (x, y) es"
    by (simp_all add: create_pending)
  have mx: "max (clock ?w) ?due = ?due" using ck by simp
  have first: "updates (advance obs T ?w)
           = (if T < ?due then []
              else [(?due, applyResponsiveScaling (obs_container obs) (obs_options obs)
                       (final_viewport (x, y) es))])"
    using pending_advance(1) [OF p assms(1), of T] by (simp add: u v mx)
  have second: "map_option res_dimensions
                (applyResponsiveScaling (obs_container obs) (obs_options obs)
                   (final_viewport (x, y) es))
              = Some (getOptimalDimensions
                        (dflt (fst (final_viewport (x, y) es)) (viewportWidth (obs_options obs)))
                        (dflt (snd (final_viewport (x, y) es)) (viewportHeight (obs_options obs)))
                        (forceOrientation (obs_options obs)))" if "obs_container obs"
    using that by (simp add: applyResponsiveScaling_def Let_def)
  have third: "updates (advance obs T (run obs (es @ (tr, Release) # later) ?init)) = []"
    if tr: "tr < ?due"
  proof -
    let ?a = "advance obs tr ?w"
    have pa: "pending_at ?a ?due" by (rule pending_advance(2) [OF p assms(1) tr])
    have ua: "updates ?a = []" using pending_advance(1) [OF p assms(1), of tr] tr u by simp
    have rel: "released (cleanup ?a)" by (rule cleanup_released [OF pending_owned [OF pa]])
    from released_run [OF rel, of obs later]
    have "released (run obs later (cleanup ?a))" "updates (run obs later (cleanup ?a)) = []"
      by (simp_all add: cleanup_updates ua)
    then have "updates (advance obs T (run obs later (cleanup ?a))) = []"
      by (simp add: released_advance)
    then show ?thesis by (simp add: run_append)
  qed
  have fourth: "updates (advance obs T (run obs (hist @ (t, e) # rest) ?init))
              = updates (advance obs t (run obs hist ?init))
                @ (if T < final_due (debounce_of obs) 0 ((t, e) # rest) then []
                   else [(final_due (debounce_of obs) 0 ((t, e) # rest),
                          applyResponsiveScaling (obs_container obs) (obs_options obs)
                            (final_viewport (final_viewport (x, y) hist) ((t, e) # rest)))])"
    if h: "list_all (\<lambda>ev. snd ev \<noteq> Release) hist" and e: "e \<noteq> Release"
      and ct: "clock (run obs hist ?init) \<le> t" and br: "burst (debounce_of obs) t rest"
  proof -
    have p0: "pending_at ?init (t0 + debounce_of obs)" by (rule create_pending(1))
    then have l0: "resizeListener ?init" "orientationListener ?init"
      by (simp_all add: pending_at_def)
    from signals_attached [OF create_owned l0 h]
    have o: "owns_timers (run obs hist ?init)" and l: "resizeListener (run obs hist ?init)"
      "orientationListener (run obs hist ?init)"
      by simp_all
    have vh: "(innerWidth (run obs hist ?init), innerHeight (run obs hist ?init))
                = final_viewport (x, y) hist"
      using signals_viewport [OF h, of obs ?init] by (simp add: create_pending)
    from later_burst [OF assms(1) o l e ct br, of T] show ?thesis
      by (simp only: run_append vh [symmetric])
  qed
  from first second third fourth show ?thesis by blast
qed

text \<open>
  The theorem at a window of 1920 by 1080 that is resized after 50 ms and turned to 900 by
  1600 after 120 ms, with the default debounce time of 150 ms: one call at 370 ms, with the
  portrait dimensions of the turned window; no call at all when the observer is released at
  200 ms, although the window is resized again later; and one more call, at 1350 ms, for a
  second burst that starts at 1000 ms.
\<close>

theorem createResponsiveObserver_debounce_witness:
  "updates (advance (observer_with no_scaling_options) 2000
      (run (observer_with no_scaling_options)
         [(50, Resize 1600 900), (120, OrientationChange 900 1600)]
         (createResponsiveObserver (observer_with no_scaling_options)
            (initial_world 1920 1080 0))))
     = [(370, applyResponsiveScaling True no_scaling_options (900, 1600))]
   \<and> map_option res_dimensions (applyResponsiveScaling True no_scaling_options (900, 1600))
     = Some (getOptimalDimensions 900 1600 None)
   \<and> updates (advance (observer_with no_scaling_options) 2000
      (run (observer_with no_scaling_options)
         ([(50, Resize 1600 900), (120, OrientationChange 900 1600)]
            @ (200, Release) # [(500, Resize 800 600)])
         (createResponsiveObserver (observer_with no_scaling_options)
            (initial_world 1920 1080 0))))
     = []
   \<and> updates (advance (observer_with no_scaling_options) 2000
      (run (observer_with no_scaling_options)
         ([(50, Resize 1600 900), (120, OrientationChange 900 1600)]
            @ (1000, Resize 1280 720) # [(1100, OrientationChange 720 1280)])
         (createResponsiveObserver (observer_with no_scaling_options)
            (initial_world 1920 1080 0))))
     = [(370, applyResponsiveScaling True no_scaling_options (900, 1600)),
        (1350, applyResponsiveScaling True no_scaling_options (720, 1280))]"
proof -
  let ?obs = "observer_with no_scaling_options"
  let ?es = "[(50, Resize 1600 900), (120, OrientationChange 900 1600)]"
  let ?init = "createResponsiveObserver ?obs (initial_world 1920 1080 0)"
  have cb: "obs_callback ?obs" and oc: "obs_container ?obs"
    and oo: "obs_options ?obs = no_scaling_options"
    by (simp_all add: observer_with_def)
  have d: "debounce_of ?obs = 150"
    by (simp add: observer_with_def debounce_of_def no_scaling_options_def dflt_def)
  have no_viewport: "viewportWidth no_scaling_options = None"
    "viewportHeight no_scaling_options = None" "forceOrientation no_scaling_options = None"
    by (simp_all add: no_scaling_options_def)
  have b: "burst (debounce_of ?obs) 0 ?es" by (simp add: d)
  note inst = createResponsiveObserver_debounce
      [OF cb b, where x = 1920 and y = 1080 and tr = 200
         and later = "[(500, Resize 800 600)]" and hist = ?es and t = 1000
         and e = "Resize 1280 720" and rest = "[(1100, OrientationChange 720 1280)]"]
  have early: "updates (advance ?obs 1000 (run ?obs ?es ?init))
                 = [(370, applyResponsiveScaling True no_scaling_options (900, 1600))]"
    using inst [where T = 1000, THEN conjunct1] by (simp add: d oc oo del: run.simps)
  have ck: "clock (run ?obs ?es ?init) \<le> 1000" by (simp add: observer_eval)
  have one: "updates (advance ?obs 2000 (run ?obs ?es ?init))
                 = [(370, applyResponsiveScaling True no_scaling_options (900, 1600))]"
    using inst [where T = 2000, THEN conjunct1] by (simp add: d oc oo del: run.simps)
  have two: "map_option res_dimensions (applyResponsiveScaling True no_scaling_options (900, 1600))
               = Some (getOptimalDimensions 900 1600 None)"
    using inst [where T = 2000, THEN conjunct2, THEN conjunct1]
    by (simp add: oc oo no_viewport dflt_def)
  have three: "updates (advance ?obs 2000
                 (run ?obs (?es @ (200, Release) # [(500, Resize 800 600)]) ?init)) = []"
    using inst [where T = 2000, THEN conjunct2, THEN conjunct2, THEN conjunct1]
    by (simp add: d del: run.simps)
  have four: "updates (advance ?obs 2000
                 (run ?obs (?es @ (1000, Resize 1280 720) # [(1100, OrientationChange 720 1280)])
                    ?init))
              = [(370, applyResponsiveScaling True no_scaling_options (900, 1600)),
                 (1350, applyResponsiveScaling True no_scaling_options (720, 1280))]"
    using inst [where T = 2000, THEN conjunct2, THEN conjunct2, THEN conjunct2] ck
    by (simp add: d oc oo early del: run.simps)
  from one two three four show ?thesis by (simp only: simp_thms)
qed

text \<open>
  C7 as the specification states it fails where the options fix the viewport. The observer
  is created with a viewport of 800 by 600 in its options; the window is resized to 1920 by
  1080 after 10 ms. The one call, at 160 ms, carries the dimensions fitted to 800 by 600,
  not those of the final window.
\<close>

theorem createResponsiveObserver_fixed_viewport_counterexample:
  "map (map_prod id (map_option res_dimensions))
     (updates (advance
        (observer_with
           (no_scaling_options\<lparr> viewportWidth := Some 800, viewportHeight := Some 600 \<rparr>))
        1000
        (run (observer_with
                (no_scaling_options\<lparr> viewportWidth := Some 800, viewportHeight := Some 600 \<rparr>))
           [(10, Resize 1920 1080)]
           (createResponsiveObserver
              (observer_with
                 (no_scaling_options\<lparr> viewportWidth := Some 800, viewportHeight := Some 600 \<rparr>))
              (initial_world 800 600 0)))))
     = [(160, Some \<lparr> width = 800, height = 450, scale = 5 / 12, orientation = Landscape,
                     offsetX = 0, offsetY = 75 \<rparr>)]
   \<and> getOptimalDimensions 1920 1080 None
     = \<lparr> width = 1920, height = 1080, scale = 1, orientation = Landscape,
         offsetX = 0, offsetY = 0 \<rparr>"
  by (simp add: observer_eval solver_defs)

end
